theory Spec2Isabelle
  imports Complex_Main "HOL-Library.Word" "HOL-Library.Log_Nat"
begin

section \<open>Arrays, the heap and call outcomes\<close>

text \<open>
  A NumPy array is its shape and its elements in row-major order. Every raster of this
  development holds 8-bit elements (dtype uint8). Arrays live in a heap and are named by
  their address, so that two references to one array are visible as such. An address is
  the position of the array in the heap; allocation appends.

  Opacities and shape coordinates are Python floats. A float64 value is a rational, and
  every float64 operation of the blend is the exact operation followed by rounding to the
  nearest float64 (\<^verbatim>\<open>f64_round\<close> below). Shape coordinates are only truncated to integers,
  which is exact.
\<close>

type_synonym byte = "8 word"

record ndarray =
  shape :: "nat list"
  elems :: "byte list"

type_synonym addr = nat
type_synonym point = "int \<times> int"
type_synonym coord = "rat \<times> rat"
type_synonym color = "int \<times> int \<times> int"

datatype error = AttributeError | ValueError | IndexError | Cv2Error

text \<open>
  Drawing options that the annotation methods hand through to the native primitive
  (\<^verbatim>\<open>*args, **kwargs\<close>), after the primitive's defaults have been filled in.
\<close>

record draw_opts =
  thickness :: int
  lineType :: int
  shift_bits :: int

definition default_opts :: draw_opts where
  "default_opts = \<lparr>thickness = 1, lineType = 8, shift_bits = 0\<rparr>"

text \<open>A call into the native drawing library, with the array it draws on.\<close>

datatype cv2_call =
    Cv2Circle addr point int color draw_opts
  | Cv2Line addr point point color draw_opts
  | Cv2Rectangle addr point point color draw_opts
  | Cv2FillPoly addr "point list list" color
  | Cv2PutText addr string point int rat color draw_opts

fun call_target :: "cv2_call \<Rightarrow> addr" where
  "call_target (Cv2Circle a _ _ _ _) = a"
| "call_target (Cv2Line a _ _ _ _) = a"
| "call_target (Cv2Rectangle a _ _ _ _) = a"
| "call_target (Cv2FillPoly a _ _) = a"
| "call_target (Cv2PutText a _ _ _ _ _ _) = a"

fun call_color :: "cv2_call \<Rightarrow> color" where
  "call_color (Cv2Circle _ _ _ c _) = c"
| "call_color (Cv2Line _ _ _ c _) = c"
| "call_color (Cv2Rectangle _ _ _ c _) = c"
| "call_color (Cv2FillPoly _ _ c) = c"
| "call_color (Cv2PutText _ _ _ _ _ c _) = c"

text \<open>
  The world a method runs in: the heap of arrays, and the log of the native drawing calls
  issued so far (in order, whether or not the native library accepted them).
\<close>

record world =
  heap :: "ndarray list"
  calls :: "cv2_call list"

text \<open>
  A method either raises, leaving the world as it was at the raise, or returns a value.
\<close>

datatype 'a result = Raise error world | Return 'a world

fun world_of :: "'a result \<Rightarrow> world" where
  "world_of (Raise e w) = w"
| "world_of (Return x w) = w"

fun bind_result :: "'a result \<Rightarrow> ('a \<Rightarrow> world \<Rightarrow> 'b result) \<Rightarrow> 'b result" where
  "bind_result (Raise e w) f = Raise e w"
| "bind_result (Return x w) f = f x w"

text \<open>A \<^verbatim>\<open>for\<close> loop over a list whose body may raise.\<close>

fun for_each :: "'a list \<Rightarrow> ('a \<Rightarrow> world \<Rightarrow> unit result) \<Rightarrow> world \<Rightarrow> unit result" where
  "for_each [] body w = Return () w"
| "for_each (x # xs) body w = bind_result (body x w) (\<lambda>_. for_each xs body)"

definition alloc :: "ndarray \<Rightarrow> world \<Rightarrow> addr \<times> world" where
  "alloc a w = (length (heap w), w\<lparr>heap := heap w @ [a]\<rparr>)"

definition np_zeros :: "nat list \<Rightarrow> ndarray" where
  "np_zeros shp = \<lparr>shape = shp, elems = replicate (prod_list shp) 0\<rparr>"

text \<open>Python's \<^verbatim>\<open>int(x)\<close> on a float, and NumPy's cast to an integer dtype: towards zero.\<close>

definition py_int :: "rat \<Rightarrow> int" where
  "py_int x = (if x < 0 then - \<lfloor>- x\<rfloor> else \<lfloor>x\<rfloor>)"

text \<open>
  Storing a float into a uint8 array casts it: the fraction is dropped, and a value
  outside 0..255 wraps.
\<close>

definition to_uint8 :: "rat \<Rightarrow> byte" where
  "to_uint8 x = word_of_int (py_int x)"

subsection \<open>float64 arithmetic\<close>

text \<open>
  IEEE 754 binary64, as NumPy and Python compute with: a finite float64 is \<open>m * 2\<^sup>k\<close> with
  \<open>\<bar>m\<bar> < 2\<^sup>5\<^sup>3\<close> and \<open>- 1074 \<le> k\<close>, and the result of an operation is the exact result rounded
  to the nearest such value, ties to the even mantissa. \<^verbatim>\<open>ilog2 x\<close> is the exponent of the
  leading bit of a positive \<open>x\<close>. Overflow to infinity needs values beyond \<open>2\<^sup>1\<^sup>0\<^sup>2\<^sup>3\<close>; the
  values here stay below \<open>2\<^sup>1\<^sup>0\<close>.
\<close>

definition ilog2 :: "rat \<Rightarrow> int" where
  "ilog2 x = (case quotient_of x of (p, q) \<Rightarrow>
      let d = bitlen p - bitlen q in if 2 powi d \<le> x then d else d - 1)"

definition round_half_even :: "rat \<Rightarrow> int" where
  "round_half_even y =
     (let f = \<lfloor>y\<rfloor>; d = y - of_int f
      in if d < 1 / 2 then f else if 1 / 2 < d then f + 1 else if even f then f else f + 1)"

definition f64_round :: "rat \<Rightarrow> rat" where
  "f64_round x =
     (if x = 0 then 0
      else let q = 2 powi max (ilog2 \<bar>x\<bar> - 52) (- 1074)
           in q * of_int (round_half_even (x / q)))"

definition is_float64 :: "rat \<Rightarrow> bool" where
  "is_float64 x \<longleftrightarrow> f64_round x = x"

text \<open>Multi-indices of an array: from and to the row-major position.\<close>

fun unravel :: "nat list \<Rightarrow> nat \<Rightarrow> nat list" where
  "unravel [] k = []"
| "unravel (d # ds) k = (k div prod_list ds) # unravel ds (k mod prod_list ds)"

text \<open>
  \<open>ravel\<close> is \<open>None\<close> where NumPy raises IndexError: an index out of bounds, or more
  indices than dimensions. (Fewer indices than dimensions select sub-arrays in NumPy; a
  three-dimensional overlay never indexes an array of more than three dimensions here.)
\<close>

fun ravel :: "nat list \<Rightarrow> nat list \<Rightarrow> nat option" where
  "ravel [] [] = Some 0"
| "ravel (d # ds) (i # ixs) =
     (if i < d then map_option (\<lambda>r. i * prod_list ds + r) (ravel ds ixs) else None)"
| "ravel _ _ = None"

text \<open>\<^verbatim>\<open>a.nonzero()\<close>: the multi-index of every element that is not 0.\<close>

definition nonzero :: "ndarray \<Rightarrow> nat list list" where
  "nonzero a = map (unravel (shape a)) (filter (\<lambda>k. elems a ! k \<noteq> 0) [0..<length (elems a)])"

text \<open>
  \<^verbatim>\<open>cv2.cvtColor(a, cv2.COLOR_GRAY2BGR)\<close>: a non-empty single-channel raster becomes a
  three-channel one with the grey value in each channel; anything else is refused.
\<close>

definition cvtColor_GRAY2BGR :: "ndarray \<Rightarrow> ndarray option" where
  "cvtColor_GRAY2BGR a =
     (case shape a of
        [h, w] \<Rightarrow> if h * w = 0 then None
                  else Some \<lparr>shape = [h, w, 3], elems = concat (map (\<lambda>v. [v, v, v]) (elems a))\<rparr>
      | [h, w, c] \<Rightarrow> if h * w = 0 \<or> c \<noteq> 1 then None
                  else Some \<lparr>shape = [h, w, 3], elems = concat (map (\<lambda>v. [v, v, v]) (elems a))\<rparr>
      | _ \<Rightarrow> None)"

section \<open>The Image class\<close>

record Image =
  desc :: string
  data :: addr
  height :: nat
  width :: nat
  nchannels :: nat
  annotation_data :: addr

subsection \<open>as_annotated\<close>

text \<open>
  \<^verbatim>\<open>alpha * annotation_data[mask] + (1 - alpha) * tmp_img[mask]\<close> for one element, stored
  back into the 8-bit raster. The two arrays hold 8-bit elements and \<^verbatim>\<open>alpha\<close> is a Python
  float, so NumPy computes in float64: the product \<^verbatim>\<open>alpha * a\<close>, the difference
  \<^verbatim>\<open>1 - alpha\<close>, the product with \<^verbatim>\<open>t\<close> and the sum are each rounded to a float64. The store
  into the 8-bit raster drops the fraction.
\<close>

definition as_float :: "byte \<Rightarrow> rat" where
  "as_float b = of_nat (unat b)"

definition blend :: "rat \<Rightarrow> byte \<Rightarrow> byte \<Rightarrow> byte" where
  "blend alpha a t =
     to_uint8 (f64_round (f64_round (alpha * as_float a)
                          + f64_round (f64_round (1 - alpha) * as_float t)))"

text \<open>
  \<^verbatim>\<open>tmp_img[mask] = alpha * annotation_data[mask] + (1 - alpha) * tmp_img[mask]\<close>: the
  right-hand side reads both arrays at every index of the mask (IndexError when an index
  does not fit), then the values are written at these indices.
\<close>

fun masked_assign :: "rat \<Rightarrow> ndarray \<Rightarrow> ndarray \<Rightarrow> nat list list \<Rightarrow> byte list \<Rightarrow> byte list option" where
  "masked_assign alpha ann tmp [] es = Some es"
| "masked_assign alpha ann tmp (ix # ixs) es =
     (case (ravel (shape ann) ix, ravel (shape tmp) ix) of
        (Some ka, Some kt) \<Rightarrow>
          masked_assign alpha ann tmp ixs (es[kt := blend alpha (elems ann ! ka) (elems tmp ! kt)])
      | _ \<Rightarrow> None)"

definition as_annotated :: "Image \<Rightarrow> rat \<Rightarrow> world \<Rightarrow> addr result" where
  "as_annotated self alpha w =
     (let ann = heap w ! annotation_data self;
          mask = nonzero ann
      in case (if nchannels self = 1 then cvtColor_GRAY2BGR (heap w ! data self)
               else Some (heap w ! data self)) of
           None \<Rightarrow> Raise Cv2Error w
         | Some tmp_img \<Rightarrow>
             (case masked_assign alpha ann tmp_img mask (elems tmp_img) of
                None \<Rightarrow> Raise IndexError w
              | Some es \<Rightarrow> (case alloc (tmp_img\<lparr>elems := es\<rparr>) w of (a, w') \<Rightarrow> Return a w')))"

section \<open>The native library\<close>

text \<open>
  What the methods need of the native imaging library and cannot be read off this
  repository is a parameter: decoding, which calls the library accepts, which pixels a
  primitive covers, and the point-in-contour tests of the polygon fill.
\<close>

record cv2 =
  imread :: "string \<Rightarrow> int list \<Rightarrow> ndarray option"
  imdecode :: "byte list \<Rightarrow> ndarray option"
  accepts :: "cv2_call \<Rightarrow> bool"
  covers :: "cv2_call \<Rightarrow> point list"
  inside :: "point list \<Rightarrow> point \<Rightarrow> bool"
  on_boundary :: "point list \<Rightarrow> point \<Rightarrow> bool"
  getTextSize :: "string \<Rightarrow> int \<Rightarrow> rat \<Rightarrow> int \<Rightarrow> int \<times> int"

definition nrows :: "ndarray \<Rightarrow> nat" where
  "nrows a = (case shape a of h # _ \<Rightarrow> h | [] \<Rightarrow> 0)"

definition ncols :: "ndarray \<Rightarrow> nat" where
  "ncols a = (case shape a of _ # w # _ \<Rightarrow> w | _ \<Rightarrow> 0)"

definition nchan :: "ndarray \<Rightarrow> nat" where
  "nchan a = (case shape a of [_, _, c] \<Rightarrow> c | _ \<Rightarrow> 1)"

definition drawable :: "ndarray \<Rightarrow> bool" where
  "drawable a \<longleftrightarrow> (length (shape a) = 2 \<or> length (shape a) = 3) \<and> 1 \<le> nchan a \<and> nchan a \<le> 4"

text \<open>A colour component is stored saturated to 0..255; a colour has a fourth component 0.\<close>

definition saturate :: "int \<Rightarrow> byte" where
  "saturate v = (if v < 0 then 0 else if 255 < v then 255 else word_of_int v)"

definition scalar :: "color \<Rightarrow> byte list" where
  "scalar col = (case col of (c0, c1, c2) \<Rightarrow> [saturate c0, saturate c1, saturate c2, 0])"

fun store_at :: "nat \<Rightarrow> 'a list \<Rightarrow> 'a list \<Rightarrow> 'a list" where
  "store_at k [] es = es"
| "store_at k (v # vs) es = store_at (Suc k) vs (es[k := v])"

text \<open>Drawing is clipped to the raster: a covered point outside it is skipped.\<close>

definition put_pixel :: "color \<Rightarrow> ndarray \<Rightarrow> point \<Rightarrow> ndarray" where
  "put_pixel col a p =
     (case p of (x, y) \<Rightarrow>
        if 0 \<le> x \<and> x < int (ncols a) \<and> 0 \<le> y \<and> y < int (nrows a)
        then a\<lparr>elems := store_at ((nat y * ncols a + nat x) * nchan a)
                           (take (nchan a) (scalar col)) (elems a)\<rparr>
        else a)"

definition paint :: "point list \<Rightarrow> color \<Rightarrow> ndarray \<Rightarrow> ndarray" where
  "paint ps col a = foldl (put_pixel col) a ps"

definition raster_points :: "ndarray \<Rightarrow> point list" where
  "raster_points a = concat (map (\<lambda>y. map (\<lambda>x. (int x, int y)) [0..<ncols a]) [0..<nrows a])"

text \<open>
  \<^verbatim>\<open>cv2.fillPoly\<close> takes all contours at once: it paints every outline, and the points that
  lie inside an odd number of the contours (the even-odd rule).
\<close>

definition fill_region :: "cv2 \<Rightarrow> point list list \<Rightarrow> point \<Rightarrow> bool" where
  "fill_region cv contours p \<longleftrightarrow>
     list_ex (\<lambda>c. on_boundary cv c p) contours \<or> odd (length (filter (\<lambda>c. inside cv c p) contours))"

fun pixels_of :: "cv2 \<Rightarrow> cv2_call \<Rightarrow> ndarray \<Rightarrow> point list" where
  "pixels_of cv (Cv2FillPoly a contours c) arr = filter (fill_region cv contours) (raster_points arr)"
| "pixels_of cv call arr = covers cv call"

text \<open>
  A native drawing call is logged, then either refused (the library raises) or it paints
  the pixels it covers into its target array, in place. The primitives are taken with a
  line type that is not anti-aliased: a covered pixel takes the whole colour.
\<close>

definition cv2_draw :: "cv2 \<Rightarrow> cv2_call \<Rightarrow> world \<Rightarrow> unit result" where
  "cv2_draw cv call w =
     (let w1 = w\<lparr>calls := calls w @ [call]\<rparr>;
          a = call_target call;
          arr = heap w ! a
      in if accepts cv call \<and> drawable arr
         then Return () (w1\<lparr>heap := (heap w)[a := paint (pixels_of cv call arr) (call_color call) arr]\<rparr>)
         else Raise Cv2Error w1)"

subsection \<open>The constructor\<close>

datatype source = FromArray addr | FromPath string | FromFile "byte list"

text \<open>
  An array is wrapped as it is; a path or a file object is decoded into a new array. A
  failed decode gives \<^verbatim>\<open>None\<close>, whose \<^verbatim>\<open>.shape\<close> raises AttributeError; a shape of fewer
  than two dimensions does not unpack into height and width (ValueError).
\<close>

definition Image_init :: "cv2 \<Rightarrow> source \<Rightarrow> int list \<Rightarrow> string \<Rightarrow> world \<Rightarrow> Image result" where
  "Image_init cv src args dsc w =
     (case (case src of
              FromArray a \<Rightarrow> Some (a, w)
            | FromPath p \<Rightarrow> map_option (\<lambda>arr. alloc arr w) (imread cv p args)
            | FromFile buf \<Rightarrow> map_option (\<lambda>arr. alloc arr w) (imdecode cv buf)) of
        None \<Rightarrow> Raise AttributeError w
      | Some (d, w1) \<Rightarrow>
          (case take 2 (shape (heap w1 ! d)) of
             [h, wd] \<Rightarrow>
               (let nch = (if length (shape (heap w1 ! d)) = 3 then shape (heap w1 ! d) ! 2 else 1)
                in case alloc (np_zeros [h, wd, 3]) w1 of
                     (ann, w2) \<Rightarrow>
                       Return \<lparr>desc = dsc, data = d, height = h, width = wd, nchannels = nch,
                               annotation_data = ann\<rparr> w2)
           | _ \<Rightarrow> Raise ValueError w1))"

subsection \<open>Annotation methods\<close>

definition fix_color_tuple :: "color \<Rightarrow> color" where
  "fix_color_tuple col =
     (case col of (r, g, b) \<Rightarrow>
        let r = (if r = 0 then 1 else r);
            g = (if g = 0 then 1 else g);
            b = (if b = 0 then 1 else b)
        in (b, g, r))"

definition annotate_circle :: "cv2 \<Rightarrow> Image \<Rightarrow> coord \<Rightarrow> int \<Rightarrow> color \<Rightarrow> draw_opts \<Rightarrow> world \<Rightarrow> unit result" where
  "annotate_circle cv self ctr radius col opts w =
     (let c = fix_color_tuple col;
          ctr = (py_int (fst ctr), py_int (snd ctr))
      in cv2_draw cv (Cv2Circle (annotation_data self) ctr radius c opts) w)"

definition annotate_point :: "cv2 \<Rightarrow> Image \<Rightarrow> coord \<Rightarrow> color \<Rightarrow> world \<Rightarrow> unit result" where
  "annotate_point cv self pt col w =
     annotate_circle cv self pt 3 col (default_opts\<lparr>thickness := - 1\<rparr>) w"

definition annotate_line :: "cv2 \<Rightarrow> Image \<Rightarrow> point \<Rightarrow> point \<Rightarrow> color \<Rightarrow> draw_opts \<Rightarrow> world \<Rightarrow> unit result" where
  "annotate_line cv self pt1 pt2 col opts w =
     (let c = fix_color_tuple col
      in cv2_draw cv (Cv2Line (annotation_data self) pt1 pt2 c opts) w)"

definition annotate_rect :: "cv2 \<Rightarrow> Image \<Rightarrow> point \<Rightarrow> point \<Rightarrow> color \<Rightarrow> draw_opts \<Rightarrow> world \<Rightarrow> unit result" where
  "annotate_rect cv self pt1 pt2 col opts w =
     (let c = fix_color_tuple col
      in cv2_draw cv (Cv2Rectangle (annotation_data self) pt1 pt2 c opts) w)"

definition annotate_text ::
  "cv2 \<Rightarrow> Image \<Rightarrow> string \<Rightarrow> point \<Rightarrow> color \<Rightarrow> color option \<Rightarrow> int \<Rightarrow> rat \<Rightarrow> draw_opts \<Rightarrow> world \<Rightarrow> unit result" where
  "annotate_text cv self txt pt col bg_color fontFace fontScale opts w =
     (let c = fix_color_tuple col
      in bind_result
           (case bg_color of
              None \<Rightarrow> Return () w
            | Some bg \<Rightarrow>
                (case getTextSize cv txt fontFace fontScale 1 of
                   (tw, th) \<Rightarrow>
                     let point1 = (fst pt - 1, snd pt + 1);
                         point2 = (fst point1 + tw + 2, snd point1 - th - 2)
                     in annotate_rect cv self point1 point2 bg (default_opts\<lparr>thickness := - 1\<rparr>) w))
           (\<lambda>_. cv2_draw cv (Cv2PutText (annotation_data self) txt pt fontFace fontScale c opts)))"

text \<open>
  \<^verbatim>\<open>_draw_segments\<close>: the coordinates are cut to integers, and each consecutive pair is
  joined by \<^verbatim>\<open>annotate_line\<close>, for \<^verbatim>\<open>i\<close> in \<^verbatim>\<open>range(1, len(points))\<close>.
\<close>

definition draw_segments :: "cv2 \<Rightarrow> Image \<Rightarrow> coord list \<Rightarrow> color \<Rightarrow> draw_opts \<Rightarrow> world \<Rightarrow> unit result" where
  "draw_segments cv self coords col opts w =
     (let points = map (\<lambda>(x, y). (py_int x, py_int y)) coords
      in for_each [1..<length points]
           (\<lambda>i. annotate_line cv self (points ! (i - 1)) (points ! i) col opts) w)"

text \<open>The geometry kinds of the shape library.\<close>

datatype geometry =
    Point coord
  | LineString "coord list"
  | LinearRing "coord list"
  | Polygon "coord list" "coord list list"
  | MultiPoint "coord list"
  | MultiLineString "coord list list"
  | MultiPolygon "(coord list \<times> coord list list) list"
  | GeometryCollection "geometry list"

fun annotate_shape ::
  "cv2 \<Rightarrow> Image \<Rightarrow> geometry \<Rightarrow> color \<Rightarrow> color option \<Rightarrow> draw_opts \<Rightarrow> world \<Rightarrow> unit result" where
  "annotate_shape cv self (LinearRing cs) col fill_color opts w = draw_segments cv self cs col opts w"
| "annotate_shape cv self (LineString cs) col fill_color opts w = draw_segments cv self cs col opts w"
| "annotate_shape cv self (MultiLineString ls) col fill_color opts w =
     for_each ls (\<lambda>line_string. draw_segments cv self line_string col opts) w"
| "annotate_shape cv self (Polygon ext ints) col fill_color opts w =
     bind_result
       (case fill_color of
          None \<Rightarrow> Return () w
        | Some fc \<Rightarrow>
            (let c = fix_color_tuple fc;
                 exterior = map (\<lambda>(x, y). (py_int x, py_int y)) ext;
                 interiors = map (map (\<lambda>(x, y). (py_int x, py_int y))) ints
             in cv2_draw cv (Cv2FillPoly (annotation_data self) ([exterior] @ interiors) c) w))
       (\<lambda>_ w1. bind_result (draw_segments cv self ext col opts w1)
          (\<lambda>_. for_each ints (\<lambda>interior_ring. draw_segments cv self interior_ring col opts)))"
| "annotate_shape cv self _ col fill_color opts w = Return () w"

text \<open>The public annotation operations, as values, and a caller that goes on after a raise.\<close>

datatype annotation =
    AnnotateShape geometry color "color option" draw_opts
  | AnnotatePoint coord color
  | AnnotateCircle coord int color draw_opts
  | AnnotateLine point point color draw_opts
  | AnnotateRect point point color draw_opts
  | AnnotateText string point color "color option" int rat draw_opts

fun annotate :: "cv2 \<Rightarrow> Image \<Rightarrow> annotation \<Rightarrow> world \<Rightarrow> unit result" where
  "annotate cv self (AnnotateShape g col fc opts) w = annotate_shape cv self g col fc opts w"
| "annotate cv self (AnnotatePoint p col) w = annotate_point cv self p col w"
| "annotate cv self (AnnotateCircle p r col opts) w = annotate_circle cv self p r col opts w"
| "annotate cv self (AnnotateLine p q col opts) w = annotate_line cv self p q col opts w"
| "annotate cv self (AnnotateRect p q col opts) w = annotate_rect cv self p q col opts w"
| "annotate cv self (AnnotateText t p col bg ff fs opts) w = annotate_text cv self t p col bg ff fs opts w"

definition annotate_all :: "cv2 \<Rightarrow> Image \<Rightarrow> annotation list \<Rightarrow> world \<Rightarrow> world" where
  "annotate_all cv self ops w = foldl (\<lambda>w1 op. world_of (annotate cv self op w1)) w ops"

section \<open>Vocabulary of the properties\<close>

text \<open>
  An Image as the constructor leaves it and the annotation methods keep it: both
  references are live, the overlay is height by width by 3, and the base raster is height
  by width with one channel (two- or three-dimensional) or three.
\<close>

text \<open>
  The opacities at which no float64 operation of the blend rounds: the multiples of
  \<open>2\<^sup>-\<^sup>4\<^sup>4\<close> between 0 and 1 (0, 1/4, 1/2, 3/4, 1 and every other opacity with at most 44
  binary places). The opacity 0.3 is not one of them.
\<close>

definition exact_opacity :: "rat \<Rightarrow> bool" where
  "exact_opacity alpha \<longleftrightarrow>
     0 \<le> alpha \<and> alpha \<le> 1 \<and> of_int \<lfloor>alpha * 2 ^ 44\<rfloor> = alpha * 2 ^ 44"

definition well_formed :: "Image \<Rightarrow> world \<Rightarrow> bool" where
  "well_formed self w \<longleftrightarrow>
     data self < length (heap w) \<and> annotation_data self < length (heap w) \<and>
     (let dat = heap w ! data self; ann = heap w ! annotation_data self
      in shape ann = [height self, width self, 3] \<and>
         length (elems ann) = height self * width self * 3 \<and>
         length (elems dat) = height self * width self * nchannels self \<and>
         (nchannels self = 1 \<or> nchannels self = 3) \<and>
         (shape dat = [height self, width self, nchannels self] \<or>
          nchannels self = 1 \<and> shape dat = [height self, width self]))"

text \<open>
  Channel \<open>c\<close> of the pixel in row \<open>i\<close> and column \<open>j\<close>: of the overlay, of the base raster
  (a single-channel base has its one value in every channel), and of a three-channel
  raster.
\<close>

definition overlay_at :: "Image \<Rightarrow> world \<Rightarrow> nat \<Rightarrow> nat \<Rightarrow> nat \<Rightarrow> byte" where
  "overlay_at self w i j c = elems (heap w ! annotation_data self) ! ((i * width self + j) * 3 + c)"

definition base_at :: "Image \<Rightarrow> world \<Rightarrow> nat \<Rightarrow> nat \<Rightarrow> nat \<Rightarrow> byte" where
  "base_at self w i j c =
     elems (heap w ! data self) !
       (if nchannels self = 1 then i * width self + j else (i * width self + j) * 3 + c)"

definition pixel_at :: "ndarray \<Rightarrow> nat \<Rightarrow> nat \<Rightarrow> nat \<Rightarrow> byte" where
  "pixel_at a i j c = elems a ! ((i * ncols a + j) * 3 + c)"

text \<open>Channel \<open>c\<close> of the pixel at a point (x, y) of a raster, as drawing addresses it.\<close>

definition element_at :: "ndarray \<Rightarrow> point \<Rightarrow> nat \<Rightarrow> byte" where
  "element_at a p c = elems a ! ((nat (snd p) * ncols a + nat (fst p)) * nchan a + c)"

text \<open>The array a method returned, when it returned one.\<close>

fun raster_of :: "addr result \<Rightarrow> ndarray option" where
  "raster_of (Raise e w) = None"
| "raster_of (Return a w) = (if a < length (heap w) then Some (heap w ! a) else None)"

text \<open>A source that is an array refers to an array that exists.\<close>

fun valid_source :: "source \<Rightarrow> world \<Rightarrow> bool" where
  "valid_source (FromArray a) w \<longleftrightarrow> a < length (heap w)"
| "valid_source _ w \<longleftrightarrow> True"

text \<open>A caller writing one element of an array it holds: \<^verbatim>\<open>arr.flat[k] = v\<close>.\<close>

definition setitem :: "addr \<Rightarrow> nat \<Rightarrow> byte \<Rightarrow> world \<Rightarrow> world" where
  "setitem a k v w = w\<lparr>heap := (heap w)[a := (heap w ! a)\<lparr>elems := (elems (heap w ! a))[k := v]\<rparr>]\<rparr>"

fun geometry_kind :: "geometry \<Rightarrow> string" where
  "geometry_kind (Point _) = ''Point''"
| "geometry_kind (LineString _) = ''LineString''"
| "geometry_kind (LinearRing _) = ''LinearRing''"
| "geometry_kind (Polygon _ _) = ''Polygon''"
| "geometry_kind (MultiPoint _) = ''MultiPoint''"
| "geometry_kind (MultiLineString _) = ''MultiLineString''"
| "geometry_kind (MultiPolygon _) = ''MultiPolygon''"
| "geometry_kind (GeometryCollection _) = ''GeometryCollection''"

text \<open>The (R,G,B) colours an operation is given.\<close>

fun given_colors :: "annotation \<Rightarrow> color list" where
  "given_colors (AnnotateShape g col fc opts) = col # (case fc of None \<Rightarrow> [] | Some f \<Rightarrow> [f])"
| "given_colors (AnnotatePoint p col) = [col]"
| "given_colors (AnnotateCircle p r col opts) = [col]"
| "given_colors (AnnotateLine p q col opts) = [col]"
| "given_colors (AnnotateRect p q col opts) = [col]"
| "given_colors (AnnotateText t p col bg ff fs opts) = col # (case bg of None \<Rightarrow> [] | Some f \<Rightarrow> [f])"

text \<open>
  What the specification says of a polygon, as the native calls it asks for: the fill, if
  a fill colour is given, over the exterior and the holes together; then one line per pair
  of consecutive points of the exterior; then the same for each hole in turn.
\<close>

definition int_point :: "coord \<Rightarrow> point" where
  "int_point p = (py_int (fst p), py_int (snd p))"

definition stroke_calls :: "Image \<Rightarrow> coord list \<Rightarrow> color \<Rightarrow> draw_opts \<Rightarrow> cv2_call list" where
  "stroke_calls self coords col opts =
     map (\<lambda>(p, q). Cv2Line (annotation_data self) p q (fix_color_tuple col) opts)
       (zip (map int_point coords) (tl (map int_point coords)))"

definition polygon_calls ::
  "Image \<Rightarrow> coord list \<Rightarrow> coord list list \<Rightarrow> color \<Rightarrow> color option \<Rightarrow> draw_opts \<Rightarrow> cv2_call list" where
  "polygon_calls self ext ints col fill_color opts =
     (case fill_color of
        None \<Rightarrow> []
      | Some fc \<Rightarrow> [Cv2FillPoly (annotation_data self) (map (map int_point) (ext # ints)) (fix_color_tuple fc)])
     @ stroke_calls self ext col opts
     @ concat (map (\<lambda>ring. stroke_calls self ring col opts) ints)"

text \<open>
  Two notions for reasoning about the methods as sequences of native calls: a relation
  between worlds that is reflexive and transitive, and one that holds across every native
  drawing call on the overlay of an Image whose colour is one of the given colours, fixed.
\<close>

definition world_preorder :: "(world \<Rightarrow> world \<Rightarrow> bool) \<Rightarrow> bool" where
  "world_preorder R \<longleftrightarrow> (\<forall>a. R a a) \<and> (\<forall>a b c. R a b \<longrightarrow> R b c \<longrightarrow> R a c)"

definition across_draws :: "cv2 \<Rightarrow> Image \<Rightarrow> color set \<Rightarrow> (world \<Rightarrow> world \<Rightarrow> bool) \<Rightarrow> bool" where
  "across_draws cv self C R \<longleftrightarrow>
     (\<forall>call w. call_target call = annotation_data self \<longrightarrow>
        call_color call \<in> fix_color_tuple ` C \<longrightarrow> R w (world_of (cv2_draw cv call w)))"

text \<open>
  From one world to a later one no array was added or removed, every array kept its shape
  and its number of elements, and every array but the overlay of the Image is unchanged.
\<close>

definition buffers_kept :: "Image \<Rightarrow> world \<Rightarrow> world \<Rightarrow> bool" where
  "buffers_kept self w w' \<longleftrightarrow>
     length (heap w') = length (heap w) \<and>
     (\<forall>a < length (heap w).
        shape (heap w' ! a) = shape (heap w ! a) \<and>
        length (elems (heap w' ! a)) = length (elems (heap w ! a)) \<and>
        (a \<noteq> annotation_data self \<longrightarrow> heap w' ! a = heap w ! a))"

section \<open>Concrete rasters and a small native layer\<close>

text \<open>
  An instance of the native layer for evaluating the methods on small rasters: a circle
  covers the disc around its centre, a rectangle its box, a line and a text their anchor
  points; a contour is read as the axis-parallel box around its points. It accepts every
  circle of non-negative radius and every other call, and decodes one file name.
\<close>

definition box_points :: "int \<Rightarrow> int \<Rightarrow> int \<Rightarrow> int \<Rightarrow> point list" where
  "box_points x1 y1 x2 y2 = concat (map (\<lambda>y. map (\<lambda>x. (x, y)) [x1..x2]) [y1..y2])"

fun toy_covers :: "cv2_call \<Rightarrow> point list" where
  "toy_covers (Cv2Circle a ctr r col opts) =
     filter (\<lambda>p. (fst p - fst ctr)\<^sup>2 + (snd p - snd ctr)\<^sup>2 \<le> r\<^sup>2)
       (box_points (fst ctr - r) (snd ctr - r) (fst ctr + r) (snd ctr + r))"
| "toy_covers (Cv2Line a p q col opts) = [p, q]"
| "toy_covers (Cv2Rectangle a p q col opts) =
     box_points (min (fst p) (fst q)) (min (snd p) (snd q)) (max (fst p) (fst q)) (max (snd p) (snd q))"
| "toy_covers (Cv2PutText a txt p ff fs col opts) = [p]"
| "toy_covers (Cv2FillPoly a contours col) = []"

definition toy_inside :: "point list \<Rightarrow> point \<Rightarrow> bool" where
  "toy_inside c p \<longleftrightarrow>
     list_ex (\<lambda>q. fst q < fst p) c \<and> list_ex (\<lambda>q. fst p < fst q) c \<and>
     list_ex (\<lambda>q. snd q < snd p) c \<and> list_ex (\<lambda>q. snd p < snd q) c"

definition toy_on_boundary :: "point list \<Rightarrow> point \<Rightarrow> bool" where
  "toy_on_boundary c p \<longleftrightarrow>
     list_ex (\<lambda>q. fst q \<le> fst p) c \<and> list_ex (\<lambda>q. fst p \<le> fst q) c \<and>
     list_ex (\<lambda>q. snd q \<le> snd p) c \<and> list_ex (\<lambda>q. snd p \<le> snd q) c \<and> \<not> toy_inside c p"

fun toy_accepts :: "cv2_call \<Rightarrow> bool" where
  "toy_accepts (Cv2Circle a ctr r col opts) \<longleftrightarrow> 0 \<le> r"
| "toy_accepts _ \<longleftrightarrow> True"

definition toy_cv2 :: cv2 where
  "toy_cv2 =
     \<lparr>imread = (\<lambda>path args. if path = ''tile.png'' then Some \<lparr>shape = [1, 2], elems = [7, 9]\<rparr> else None),
      imdecode = (\<lambda>buf. None),
      accepts = toy_accepts,
      covers = toy_covers,
      inside = toy_inside,
      on_boundary = toy_on_boundary,
      getTextSize = (\<lambda>txt fontFace fontScale thick. (8 * int (length txt), 10))\<rparr>"

text \<open>
  A one-by-two colour image: black at the left, where the overlay holds the colour that the
  default red is drawn with, and grey at the right, where only the middle channel of the
  overlay is set.
\<close>

definition ex_world :: world where
  "ex_world = \<lparr>heap = [\<lparr>shape = [1, 2, 3], elems = [0, 0, 0, 10, 10, 10]\<rparr>,
                        \<lparr>shape = [1, 2, 3], elems = [1, 1, 255, 0, 5, 0]\<rparr>],
               calls = []\<rparr>"

definition ex_image :: Image where
  "ex_image = \<lparr>desc = ''example'', data = 0, height = 1, width = 2, nchannels = 3, annotation_data = 1\<rparr>"

text \<open>The example after \<^verbatim>\<open>as_annotated(0.5)\<close>: the composite is the third array.\<close>

definition ex_after :: world where
  "ex_after = \<lparr>heap = [\<lparr>shape = [1, 2, 3], elems = [0, 0, 0, 10, 10, 10]\<rparr>,
                        \<lparr>shape = [1, 2, 3], elems = [1, 1, 255, 0, 5, 0]\<rparr>,
                        \<lparr>shape = [1, 2, 3], elems = [0, 0, 127, 10, 7, 10]\<rparr>],
               calls = []\<rparr>"

text \<open>A one-pixel grey image whose caller still holds the array.\<close>

definition px_world :: world where
  "px_world = \<lparr>heap = [\<lparr>shape = [1, 1], elems = [200]\<rparr>], calls = []\<rparr>"

text \<open>
  The same array wrapped in an Image, before and after \<^verbatim>\<open>annotate_point((0, 0), (0, 255, 0))\<close>.
\<close>

definition px_image :: Image where
  "px_image = \<lparr>desc = ''px'', data = 0, height = 1, width = 1, nchannels = 1, annotation_data = 1\<rparr>"

definition px_blank :: world where
  "px_blank = \<lparr>heap = [\<lparr>shape = [1, 1], elems = [200]\<rparr>, \<lparr>shape = [1, 1, 3], elems = [0, 0, 0]\<rparr>],
               calls = []\<rparr>"

definition px_drawn :: world where
  "px_drawn = \<lparr>heap = [\<lparr>shape = [1, 1], elems = [200]\<rparr>, \<lparr>shape = [1, 1, 3], elems = [1, 255, 1]\<rparr>],
               calls = [Cv2Circle 1 (0, 0) 3 (1, 255, 1) \<lparr>thickness = - 1, lineType = 8, shift_bits = 0\<rparr>]\<rparr>"
text \<open>A second Image wrapped around the same array.\<close>

definition px_second :: Image where
  "px_second = \<lparr>desc = ''second'', data = 0, height = 1, width = 1, nchannels = 1, annotation_data = 2\<rparr>"

definition px_both :: world where
  "px_both = \<lparr>heap = [\<lparr>shape = [1, 1], elems = [200]\<rparr>, \<lparr>shape = [1, 1, 3], elems = [0, 0, 0]\<rparr>,
                       \<lparr>shape = [1, 1, 3], elems = [0, 0, 0]\<rparr>],
              calls = []\<rparr>"

text \<open>
  A square with two square holes, for a thirteen-by-thirteen raster. The coordinates are
  floats; cut to integers the rings run from 0 to 12, from 2 to 4 and from 8 to 10.
\<close>

definition sq_exterior :: "coord list" where
  "sq_exterior = [(0, 0), (12.5, 0), (12.5, 12.5), (0, 12.5), (0, 0)]"

definition sq_hole :: "coord list" where
  "sq_hole = [(2, 2), (4.9, 2), (4.9, 4.9), (2, 4.9), (2, 2)]"

definition sq_hole2 :: "coord list" where
  "sq_hole2 = [(8, 8), (10, 8), (10, 10), (8, 10), (8, 8)]"

definition sq_world :: world where
  "sq_world = \<lparr>heap = [np_zeros [13, 13], np_zeros [13, 13, 3]], calls = []\<rparr>"

definition sq_image :: Image where
  "sq_image = \<lparr>desc = ''square'', data = 0, height = 13, width = 13, nchannels = 1, annotation_data = 1\<rparr>"

section \<open>Compositing\<close>

subsection \<open>Indices and the masked assignment\<close>

lemma ravel_unravel: "k < prod_list ds \<Longrightarrow> ravel ds (unravel ds k) = Some k"
proof (induction ds arbitrary: k)
  case Nil
  then show ?case by simp
next
  case (Cons d ds)
  let ?P = "prod_list ds"
  from Cons.prems have lt: "k < d * ?P" by simp
  then have P: "0 < ?P" by (cases "?P = 0") auto
  have i: "k div ?P < d" using lt P by (simp add: less_mult_imp_div_less mult.commute)
  have r: "k mod ?P < ?P" using P by simp
  show ?case using i Cons.IH [OF r] by simp
qed

lemma masked_assign_same_shape:
  assumes "shape ann = shp" "shape tmp = shp" "\<forall>k \<in> set ks. k < prod_list shp"
  shows "\<exists>es'. masked_assign alpha ann tmp (map (unravel shp) ks) es = Some es' \<and>
           length es' = length es \<and>
           (\<forall>k < length es. es' ! k =
              (if k \<in> set ks then blend alpha (elems ann ! k) (elems tmp ! k) else es ! k))"
  using assms(3)
proof (induction ks arbitrary: es)
  case Nil
  then show ?case by simp
next
  case (Cons k ks)
  let ?es1 = "es[k := blend alpha (elems ann ! k) (elems tmp ! k)]"
  from Cons.prems have k: "k < prod_list shp" and ks: "\<forall>k \<in> set ks. k < prod_list shp" by auto
  from Cons.IH [OF ks, of ?es1] obtain es' where
    1: "masked_assign alpha ann tmp (map (unravel shp) ks) ?es1 = Some es'"
    and 2: "length es' = length ?es1"
    and 3: "\<forall>j < length ?es1. es' ! j =
              (if j \<in> set ks then blend alpha (elems ann ! j) (elems tmp ! j) else ?es1 ! j)"
    by blast
  have "masked_assign alpha ann tmp (map (unravel shp) (k # ks)) es = Some es'"
    using 1 assms(1,2) ravel_unravel [OF k] by simp
  moreover have "length es' = length es" using 2 by simp
  moreover have "\<forall>j < length es. es' ! j =
      (if j \<in> set (k # ks) then blend alpha (elems ann ! j) (elems tmp ! j) else es ! j)"
    using 3 by (auto simp: nth_list_update)
  ultimately show ?case by blast
qed

lemma concat_triple_length: "length (concat (map (\<lambda>v. [v, v, v]) xs)) = 3 * length xs"
  by (induction xs) auto

lemma concat_triple_nth:
  "p < length xs \<Longrightarrow> c < 3 \<Longrightarrow> concat (map (\<lambda>v. [v, v, v]) xs) ! (p * 3 + c) = xs ! p"
proof (induction xs arbitrary: p)
  case Nil
  then show ?case by simp
next
  case (Cons x xs)
  show ?case
  proof (cases p)
    case 0
    then show ?thesis using Cons.prems(2)
      by (cases c rule: nat.exhaust; simp add: nth_Cons split: nat.splits)
  next
    case (Suc q)
    then have "q < length xs" using Cons.prems by simp
    from Cons.IH [OF this Cons.prems(2)] show ?thesis
      using Suc by (simp add: nth_Cons split: nat.splits)
  qed
qed

lemma pixel_index_less:
  fixes i j h w :: nat
  assumes "i < h" "j < w"
  shows "i * w + j < h * w"
proof -
  have "i * w + j < i * w + w" using assms(2) by simp
  also have "\<dots> = Suc i * w" by simp
  also have "\<dots> \<le> h * w" using assms(1) by (intro mult_le_mono1) simp
  finally show ?thesis .
qed

subsection \<open>The blend of one element\<close>

lemma as_float_nat: "\<exists>n < 256. as_float b = of_nat n \<and> b = word_of_nat n"
proof -
  have "unat b < 2 ^ LENGTH(8)" by (rule unsigned_less)
  then have "unat b < 256" by simp
  then show ?thesis unfolding as_float_def by (intro exI [of _ "unat b"]) simp
qed

lemma py_int_of_nat: "py_int (of_nat n) = int n"
  by (simp add: py_int_def)

lemma to_uint8_as_float: "to_uint8 (as_float b) = b"
proof -
  obtain n where "as_float b = of_nat n" "b = word_of_nat n" using as_float_nat by blast
  then show ?thesis by (simp add: to_uint8_def py_int_of_nat)
qed

lemma as_float_bounds: "0 \<le> as_float b" "as_float b \<le> 255"
proof -
  obtain n where n: "n < 256" "as_float b = of_nat n" using as_float_nat by blast
  show "0 \<le> as_float b" using n by simp
  have "n \<le> 255" using n by simp
  then have "(of_nat n :: rat) \<le> of_nat 255" by (rule of_nat_mono)
  then show "as_float b \<le> 255" using n by simp
qed

subsection \<open>Rounding to float64\<close>

lemma round_half_even_of_int: "round_half_even (of_int n) = n"
  by (simp add: round_half_even_def)

lemma ilog2_le:
  assumes "0 < x"
  shows "2 powi ilog2 x \<le> x"
proof -
  obtain p q where pq: "quotient_of x = (p, q)" by (cases "quotient_of x")
  then have q: "0 < q" and x: "x = of_int p / of_int q"
    by (rule quotient_of_denom_pos, rule quotient_of_div)
  have p: "0 < p" using assms q x by (simp add: zero_less_divide_iff)
  let ?d = "bitlen p - bitlen q"
  show ?thesis
  proof (cases "2 powi ?d \<le> x")
    case True
    then show ?thesis using pq by (simp add: ilog2_def)
  next
    case False
    have bp: "2 ^ nat (bitlen p - 1) \<le> p" using bitlen_bounds [OF p] by simp
    have bq: "q < 2 ^ nat (bitlen q)" using bitlen_bounds [OF q] by simp
    have p1: "1 \<le> bitlen p" using p by (simp add: bitlen_alt_def)
    have q0: "0 \<le> bitlen q" by (rule bitlen_nonneg)
    have "(2::rat) powi (bitlen p - 1) = 2 ^ nat (bitlen p - 1)"
      using p1 by (simp add: power_int_def)
    also have "\<dots> \<le> of_int p" using bp
      by (metis of_int_le_iff of_int_numeral of_int_power)
    finally have lo: "(2::rat) powi (bitlen p - 1) \<le> of_int p" .
    have "(of_int q :: rat) \<le> 2 ^ nat (bitlen q)" using bq
      by (metis less_imp_le of_int_le_iff of_int_numeral of_int_power)
    also have "\<dots> = 2 powi bitlen q" using q0 by (simp add: power_int_def)
    finally have hi: "(of_int q :: rat) \<le> 2 powi bitlen q" .
    have "(2::rat) powi (?d - 1) = 2 powi (bitlen p - 1) / 2 powi bitlen q"
      by (simp add: power_int_diff)
    also have "\<dots> \<le> of_int p / of_int q"
      using lo hi q p by (intro frac_le) simp_all
    finally have "2 powi (?d - 1) \<le> x" using x by simp
    then show ?thesis using pq False by (simp add: ilog2_def)
  qed
qed

lemma f64_round_exact:
  assumes x: "x = of_int m * 2 powi k" and m: "\<bar>m\<bar> < 2 ^ 53" and k: "- 1074 \<le> k"
  shows "f64_round x = x"
proof (cases "x = 0")
  case True
  then show ?thesis by (simp add: f64_round_def)
next
  case False
  let ?e = "ilog2 \<bar>x\<bar>"
  let ?c = "max (?e - 52) (- 1074)"
  have "2 powi ?e \<le> \<bar>x\<bar>" using False by (intro ilog2_le) simp
  also have "\<bar>x\<bar> = of_int \<bar>m\<bar> * 2 powi k" unfolding x by (simp add: abs_mult)
  also have "\<dots> < 2 ^ 53 * 2 powi k"
  proof -
    have "(of_int \<bar>m\<bar> :: rat) < of_int (2 ^ 53)" using m by (simp only: of_int_less_iff)
    then have "(of_int \<bar>m\<bar> :: rat) < 2 ^ 53" by simp
    then show ?thesis by (intro mult_strict_right_mono) simp_all
  qed
  also have "\<dots> = 2 powi (53 + k)" by (simp add: power_int_add)
  finally have "(2::rat) powi ?e < 2 powi (53 + k)" .
  then have "?e < 53 + k"
    by (metis linorder_not_less one_le_numeral power_int_increasing)
  then have c: "?c \<le> k" using k by simp
  then obtain n where n: "k - ?c = int n" by (metis diff_ge_0_iff_ge nonneg_int_cases)
  have "x / 2 powi ?c = of_int m * 2 powi (k - ?c)"
    unfolding x by (simp add: power_int_diff)
  also have "\<dots> = of_int (m * 2 ^ n)" unfolding n by simp
  finally have "x / 2 powi ?c = of_int (m * 2 ^ n)" .
  then have "f64_round x = 2 powi ?c * (x / 2 powi ?c)"
    using False by (simp only: f64_round_def Let_def round_half_even_of_int if_False)
  then show ?thesis by simp
qed

lemma f64_round_44:
  assumes "0 \<le> m" "m < 2 ^ 53"
  shows "f64_round (of_int m / 2 ^ 44) = of_int m / 2 ^ 44"
proof (rule f64_round_exact [where m = m and k = "- 44"])
  show "of_int m / 2 ^ 44 = (of_int m :: rat) * 2 powi - 44"
    by (simp add: power_int_minus_divide)
  show "\<bar>m\<bar> < 2 ^ 53" using assms by simp
  show "- 1074 \<le> (- 44 :: int)" by simp
qed

lemma exact_opacityD:
  assumes "exact_opacity alpha"
  obtains k :: int where "0 \<le> k" "k \<le> 2 ^ 44" "alpha = of_int k / 2 ^ 44"
proof -
  let ?k = "\<lfloor>alpha * 2 ^ 44\<rfloor>"
  from assms have a: "0 \<le> alpha" "alpha \<le> 1" and e: "of_int ?k = alpha * 2 ^ 44"
    unfolding exact_opacity_def by simp_all
  have "0 \<le> alpha * 2 ^ 44" using a by simp
  then have k0: "0 \<le> ?k" by simp
  have "alpha * 2 ^ 44 \<le> 1 * 2 ^ 44" using a by (intro mult_right_mono) simp_all
  then have "(of_int ?k :: rat) \<le> of_int (2 ^ 44)" using e by simp
  then have k1: "?k \<le> 2 ^ 44" by (simp only: of_int_le_iff)
  have "alpha = alpha * 2 ^ 44 / 2 ^ 44" by simp
  also have "\<dots> = of_int ?k / 2 ^ 44" by (simp only: e)
  finally have "alpha = of_int ?k / 2 ^ 44" .
  with k0 k1 show ?thesis by (rule that)
qed

lemma scaled_bound:
  fixes k n :: int
  assumes "0 \<le> k" "k \<le> 2 ^ 44" "0 \<le> n" "n < 256"
  shows "0 \<le> k * n" "k * n \<le> 2 ^ 44 * 255"
proof -
  show "0 \<le> k * n" using assms by simp
  have "k * n \<le> 2 ^ 44 * n" using assms by (intro mult_right_mono) simp_all
  also have "\<dots> \<le> 2 ^ 44 * 255" using assms by (intro mult_left_mono) simp_all
  finally show "k * n \<le> 2 ^ 44 * 255" .
qed

lemma blend_exact:
  assumes "exact_opacity alpha"
  shows "blend alpha a t = to_uint8 (alpha * as_float a + (1 - alpha) * as_float t)"
proof -
  from assms obtain k :: int where k: "0 \<le> k" "k \<le> 2 ^ 44" and al: "alpha = of_int k / 2 ^ 44"
    by (rule exact_opacityD)
  obtain n where n: "n < 256" "as_float a = of_nat n" using as_float_nat by blast
  obtain n' where n': "n' < 256" "as_float t = of_nat n'" using as_float_nat by blast
  let ?j = "2 ^ 44 - k"
  have j: "0 \<le> ?j" "?j \<le> 2 ^ 44" using k by simp_all
  have b1: "0 \<le> k * int n" "k * int n \<le> 2 ^ 44 * 255"
    using scaled_bound [OF k, of "int n"] n(1) by simp_all
  have b2: "0 \<le> ?j * int n'" "?j * int n' \<le> 2 ^ 44 * 255"
    using scaled_bound [OF j, of "int n'"] n'(1) by simp_all
  have e1: "alpha * as_float a = of_int (k * int n) / 2 ^ 44" unfolding al n(2) by simp
  have e2: "1 - alpha = of_int ?j / 2 ^ 44" unfolding al by (simp add: diff_divide_distrib)
  have e3: "of_int ?j / 2 ^ 44 * as_float t = of_int (?j * int n') / 2 ^ 44" unfolding n'(2) by simp
  have e4: "of_int (k * int n) / 2 ^ 44 + of_int (?j * int n') / (2 ^ 44 :: rat) =
      of_int (k * int n + ?j * int n') / 2 ^ 44"
    by (simp add: add_divide_distrib)
  have s: "k * int n + ?j * int n' \<le> 2 ^ 44 * 255"
  proof -
    have "k * int n + ?j * int n' \<le> k * 255 + ?j * 255"
      using k j n(1) n'(1) by (intro add_mono mult_left_mono) simp_all
    also have "\<dots> = 2 ^ 44 * 255" by (simp add: algebra_simps)
    finally show ?thesis .
  qed
  have r1: "f64_round (of_int (k * int n) / 2 ^ 44) = of_int (k * int n) / 2 ^ 44"
    using b1 by (intro f64_round_44) simp_all
  have r2: "f64_round (of_int ?j / 2 ^ 44) = of_int ?j / 2 ^ 44"
    using j by (intro f64_round_44) simp_all
  have r3: "f64_round (of_int (?j * int n') / 2 ^ 44) = of_int (?j * int n') / 2 ^ 44"
    using b2 by (intro f64_round_44) simp_all
  have r4: "f64_round (of_int (k * int n + ?j * int n') / 2 ^ 44) =
      of_int (k * int n + ?j * int n') / 2 ^ 44"
    using b1 b2 s by (intro f64_round_44) simp_all
  have A: "f64_round (f64_round (alpha * as_float a) + f64_round (f64_round (1 - alpha) * as_float t)) =
      of_int (k * int n + ?j * int n') / 2 ^ 44"
    unfolding e1 r1 e2 r2 e3 r3 e4 r4 ..
  have B: "alpha * as_float a + (1 - alpha) * as_float t =
      of_int (k * int n + ?j * int n') / 2 ^ 44"
    unfolding e1 e2 e3 e4 ..
  show ?thesis unfolding blend_def A B ..
qed

lemma exact_opacity_0: "exact_opacity 0" and exact_opacity_1: "exact_opacity 1"
  by (simp_all add: exact_opacity_def)

lemma exact_opacity_is_float64:
  assumes "exact_opacity alpha"
  shows "is_float64 alpha"
proof -
  from assms obtain k :: int where k: "0 \<le> k" "k \<le> 2 ^ 44" and al: "alpha = of_int k / 2 ^ 44"
    by (rule exact_opacityD)
  have "f64_round (of_int k / 2 ^ 44) = of_int k / 2 ^ 44"
    using k by (intro f64_round_44) simp_all
  then show ?thesis unfolding is_float64_def al .
qed

lemma blend_0: "blend 0 a t = t"
  unfolding blend_exact [OF exact_opacity_0] by (simp add: to_uint8_as_float)

lemma blend_1: "blend 1 a t = a"
  unfolding blend_exact [OF exact_opacity_1] by (simp add: to_uint8_as_float)

lemma blend_floor:
  assumes "exact_opacity alpha"
  shows "uint (blend alpha a t) = \<lfloor>alpha * as_float a + (1 - alpha) * as_float t\<rfloor>"
proof -
  let ?v = "alpha * as_float a + (1 - alpha) * as_float t"
  from assms have al: "0 \<le> alpha" "alpha \<le> 1" unfolding exact_opacity_def by simp_all
  have lo: "0 \<le> ?v" using al as_float_bounds(1) by simp
  have "alpha * as_float a \<le> alpha * 255"
    using as_float_bounds(2) al(1) by (rule mult_left_mono)
  moreover have "(1 - alpha) * as_float t \<le> (1 - alpha) * 255"
    using as_float_bounds(2) al(2) by (intro mult_left_mono) simp_all
  ultimately have hi: "?v \<le> 255" by (simp add: algebra_simps)
  have f0: "0 \<le> \<lfloor>?v\<rfloor>" using lo by simp
  have f1: "\<lfloor>?v\<rfloor> \<le> 255" using hi by (simp add: floor_le_iff)
  have "py_int ?v = \<lfloor>?v\<rfloor>" using lo by (simp add: py_int_def)
  then have "uint (blend alpha a t) = \<lfloor>?v\<rfloor> mod 256"
    unfolding blend_exact [OF assms] by (simp add: to_uint8_def uint_word_of_int)
  then show ?thesis using f0 f1 by simp
qed

text \<open>
  Away from these opacities the roundings show. The float64 nearest to 0.3 is
  \<open>5404319552844595 / 2\<^sup>5\<^sup>4\<close>, a little below 3/10; with overlay 1 and base 11 the exact blend
  of 3/10 is 8, the float64 blend is just below 8, and the element stored is 7.
\<close>

lemma f64_round_3_10: "f64_round (3 / 10) = 5404319552844595 / 2 ^ 54"
  by code_simp

lemma blend_3_10: "blend (f64_round (3 / 10)) 1 11 = 7"
  by code_simp

lemma exact_blend_3_10: "\<lfloor>3 / 10 * as_float 1 + (1 - 3 / 10) * as_float 11\<rfloor> = 8"
  by code_simp

lemma not_exact_opacity_3_10:
  "is_float64 (f64_round (3 / 10))" "\<not> exact_opacity (f64_round (3 / 10))"
  by code_simp+

lemma as_annotated_3_10:
  "raster_of (as_annotated
       \<lparr>desc = ''grey'', data = 0, height = 1, width = 1, nchannels = 1, annotation_data = 1\<rparr>
       (f64_round (3 / 10))
       \<lparr>heap = [\<lparr>shape = [1, 1], elems = [11]\<rparr>, \<lparr>shape = [1, 1, 3], elems = [1, 1, 1]\<rparr>],
        calls = []\<rparr>) =
     Some \<lparr>shape = [1, 1, 3], elems = [7, 7, 7]\<rparr>"
  by code_simp

subsection \<open>as_annotated, element by element\<close>

lemma as_annotated_tmp:
  assumes tmp: "(if nchannels self = 1 then cvtColor_GRAY2BGR (heap w ! data self)
               else Some (heap w ! data self)) = Some tmp"
    and ann: "shape (heap w ! annotation_data self) = shape tmp"
      "length (elems (heap w ! annotation_data self)) = prod_list (shape tmp)"
      "length (elems tmp) = prod_list (shape tmp)"
  shows "\<exists>es. as_annotated self alpha w =
             Return (length (heap w)) (w\<lparr>heap := heap w @ [tmp\<lparr>elems := es\<rparr>]\<rparr>) \<and>
           length es = length (elems tmp) \<and>
           (\<forall>k < length (elems tmp). es ! k =
              (if elems (heap w ! annotation_data self) ! k = 0 then elems tmp ! k
               else blend alpha (elems (heap w ! annotation_data self) ! k) (elems tmp ! k)))"
proof -
  let ?ann = "heap w ! annotation_data self"
  let ?ks = "filter (\<lambda>k. elems ?ann ! k \<noteq> 0) [0..<length (elems ?ann)]"
  have ks: "\<forall>k \<in> set ?ks. k < prod_list (shape tmp)" using ann(2) by auto
  from masked_assign_same_shape [OF ann(1) refl ks, of alpha "elems tmp"]
  obtain es where 1: "masked_assign alpha ?ann tmp (map (unravel (shape tmp)) ?ks) (elems tmp) = Some es"
    and 2: "length es = length (elems tmp)"
    and 3: "\<forall>k < length (elems tmp). es ! k =
              (if k \<in> set ?ks then blend alpha (elems ?ann ! k) (elems tmp ! k) else elems tmp ! k)"
    by blast
  have "as_annotated self alpha w = Return (length (heap w)) (w\<lparr>heap := heap w @ [tmp\<lparr>elems := es\<rparr>]\<rparr>)"
    using tmp 1 ann(1) unfolding as_annotated_def nonzero_def Let_def alloc_def by simp
  moreover have "\<forall>k < length (elems tmp). es ! k =
              (if elems ?ann ! k = 0 then elems tmp ! k else blend alpha (elems ?ann ! k) (elems tmp ! k))"
    using 3 ann(2,3) by auto
  ultimately show ?thesis using 2 by blast
qed

lemma as_annotated_elems:
  assumes wf: "well_formed self w" and ne: "0 < height self * width self"
  shows "\<exists>out. as_annotated self alpha w = Return (length (heap w)) (w\<lparr>heap := heap w @ [out]\<rparr>) \<and>
           shape out = [height self, width self, 3] \<and>
           (\<forall>i j c. i < height self \<and> j < width self \<and> c < 3 \<longrightarrow>
              pixel_at out i j c =
                (if overlay_at self w i j c = 0 then base_at self w i j c
                 else blend alpha (overlay_at self w i j c) (base_at self w i j c)))"
proof -
  let ?ann = "heap w ! annotation_data self"
  let ?dat = "heap w ! data self"
  let ?h = "height self" and ?w = "width self"
  from wf have sa: "shape ?ann = [?h, ?w, 3]" and la: "length (elems ?ann) = ?h * ?w * 3"
    and ld: "length (elems ?dat) = ?h * ?w * nchannels self"
    and nc: "nchannels self = 1 \<or> nchannels self = 3"
    and sd: "shape ?dat = [?h, ?w, nchannels self] \<or> nchannels self = 1 \<and> shape ?dat = [?h, ?w]"
    unfolding well_formed_def Let_def by auto
  define tmp where "tmp = (if nchannels self = 1
     then \<lparr>shape = [?h, ?w, 3], elems = concat (map (\<lambda>v. [v, v, v]) (elems ?dat))\<rparr> else ?dat)"
  have tmp: "(if nchannels self = 1 then cvtColor_GRAY2BGR ?dat else Some ?dat) = Some tmp"
    using sd ne unfolding tmp_def cvtColor_GRAY2BGR_def by auto
  have st: "shape tmp = [?h, ?w, 3]" using sd nc unfolding tmp_def by auto
  have lt: "length (elems tmp) = ?h * ?w * 3"
    using ld nc unfolding tmp_def by (auto simp: concat_triple_length)
  have be: "\<And>i j c. i < ?h \<Longrightarrow> j < ?w \<Longrightarrow> c < 3 \<Longrightarrow>
      elems tmp ! ((i * ?w + j) * 3 + c) = base_at self w i j c"
  proof -
    fix i j c :: nat
    assume b: "i < ?h" "j < ?w" "c < 3"
    then have p: "i * ?w + j < ?h * ?w" by (intro pixel_index_less)
    show "elems tmp ! ((i * ?w + j) * 3 + c) = base_at self w i j c"
    proof (cases "nchannels self = 1")
      case True
      then have "i * ?w + j < length (elems ?dat)" using p ld by simp
      from concat_triple_nth [OF this b(3)] show ?thesis
        using True unfolding tmp_def base_at_def by simp
    next
      case False
      then show ?thesis unfolding tmp_def base_at_def by simp
    qed
  qed
  from as_annotated_tmp [OF tmp, of alpha] sa la st lt
  obtain es where 1: "as_annotated self alpha w =
        Return (length (heap w)) (w\<lparr>heap := heap w @ [tmp\<lparr>elems := es\<rparr>]\<rparr>)"
    and 3: "\<forall>k < length (elems tmp). es ! k =
              (if elems ?ann ! k = 0 then elems tmp ! k else blend alpha (elems ?ann ! k) (elems tmp ! k))"
    by auto
  have idx: "\<And>i j c. i < ?h \<Longrightarrow> j < ?w \<Longrightarrow> c < 3 \<Longrightarrow> (i * ?w + j) * 3 + c < length (elems tmp)"
  proof -
    fix i j c :: nat
    assume "i < ?h" "j < ?w" "c < 3"
    then have "i * ?w + j < ?h * ?w" by (intro pixel_index_less)
    then show "(i * ?w + j) * 3 + c < length (elems tmp)" using lt \<open>c < 3\<close> by simp
  qed
  have "\<forall>i j c. i < ?h \<and> j < ?w \<and> c < 3 \<longrightarrow>
      pixel_at (tmp\<lparr>elems := es\<rparr>) i j c =
        (if overlay_at self w i j c = 0 then base_at self w i j c
         else blend alpha (overlay_at self w i j c) (base_at self w i j c))"
    using 3 idx be st unfolding pixel_at_def overlay_at_def ncols_def by simp
  then show ?thesis using 1 st by (intro exI [of _ "tmp\<lparr>elems := es\<rparr>"]) simp
qed

subsection \<open>What the composite holds\<close>

text \<open>
  C1 (as amended). For an Image with an 8-bit base raster of one or three channels that is
  not empty, and a float64 opacity between 0 and 1, \<^verbatim>\<open>as_annotated\<close> returns a new array of
  shape height by width by 3. The mask is taken element by element, not pixel by pixel: a
  channel whose overlay element is 0 keeps the value of the base raster (the grey value,
  for a single-channel base), so a pixel whose overlay is all zero equals the base pixel; a
  channel whose overlay element is not 0 holds the blend
  \<open>alpha * overlay + (1 - alpha) * base\<close> as float64 arithmetic computes it, each operation
  rounded to the nearest float64, with its fraction dropped. When the opacity is a multiple
  of \<open>2\<^sup>-\<^sup>4\<^sup>4\<close> no operation rounds, and the channel holds the floor of the exact blend.
\<close>

theorem as_annotated_composite:
  assumes "well_formed self w" and "0 < height self * width self"
    and "is_float64 alpha" and "0 \<le> alpha" and "alpha \<le> 1"
  shows "\<exists>out. as_annotated self alpha w = Return (length (heap w)) (w\<lparr>heap := heap w @ [out]\<rparr>) \<and>
           shape out = [height self, width self, 3] \<and>
           (\<forall>i j. i < height self \<and> j < width self \<longrightarrow>
              ((\<forall>c<3. overlay_at self w i j c = 0) \<longrightarrow>
                 (\<forall>c<3. pixel_at out i j c = base_at self w i j c)) \<and>
              (\<forall>c<3. (overlay_at self w i j c = 0 \<longrightarrow> pixel_at out i j c = base_at self w i j c) \<and>
                     (overlay_at self w i j c \<noteq> 0 \<longrightarrow>
                        pixel_at out i j c =
                          to_uint8 (f64_round
                            (f64_round (alpha * as_float (overlay_at self w i j c))
                             + f64_round (f64_round (1 - alpha) * as_float (base_at self w i j c)))) \<and>
                        (exact_opacity alpha \<longrightarrow>
                           uint (pixel_at out i j c) =
                             \<lfloor>alpha * as_float (overlay_at self w i j c)
                                + (1 - alpha) * as_float (base_at self w i j c)\<rfloor>))))"
proof -
  from as_annotated_elems [OF assms(1,2), of alpha] obtain out where
    ret: "as_annotated self alpha w = Return (length (heap w)) (w\<lparr>heap := heap w @ [out]\<rparr>)"
    and shp: "shape out = [height self, width self, 3]"
    and px: "\<And>i j c. i < height self \<Longrightarrow> j < width self \<Longrightarrow> c < 3 \<Longrightarrow>
              pixel_at out i j c =
                (if overlay_at self w i j c = 0 then base_at self w i j c
                 else blend alpha (overlay_at self w i j c) (base_at self w i j c))"
    by blast
  have fl: "\<And>a t. exact_opacity alpha \<Longrightarrow>
      uint (to_uint8 (f64_round (f64_round (alpha * as_float a)
                                 + f64_round (f64_round (1 - alpha) * as_float t)))) =
        \<lfloor>alpha * as_float a + (1 - alpha) * as_float t\<rfloor>"
    using blend_floor unfolding blend_def .
  have "\<forall>i j. i < height self \<and> j < width self \<longrightarrow>
      ((\<forall>c<3. overlay_at self w i j c = 0) \<longrightarrow> (\<forall>c<3. pixel_at out i j c = base_at self w i j c)) \<and>
      (\<forall>c<3. (overlay_at self w i j c = 0 \<longrightarrow> pixel_at out i j c = base_at self w i j c) \<and>
             (overlay_at self w i j c \<noteq> 0 \<longrightarrow>
                pixel_at out i j c =
                  to_uint8 (f64_round
                    (f64_round (alpha * as_float (overlay_at self w i j c))
                     + f64_round (f64_round (1 - alpha) * as_float (base_at self w i j c)))) \<and>
                (exact_opacity alpha \<longrightarrow>
                   uint (pixel_at out i j c) =
                     \<lfloor>alpha * as_float (overlay_at self w i j c)
                        + (1 - alpha) * as_float (base_at self w i j c)\<rfloor>)))"
    using px fl by (simp add: blend_def)
  with ret shp show ?thesis by blast
qed

theorem as_annotated_composite_witness:
  "well_formed ex_image ex_world \<and> 0 < height ex_image * width ex_image \<and>
   is_float64 (1 / 2) \<and> (0::rat) \<le> 1 / 2 \<and> (1 / 2 :: rat) \<le> 1 \<and> exact_opacity (1 / 2) \<and>
   (\<exists>out. as_annotated ex_image (1 / 2) ex_world = Return 2 (ex_world\<lparr>heap := heap ex_world @ [out]\<rparr>) \<and>
      shape out = [1, 2, 3] \<and>
      pixel_at out 0 1 0 = 10 \<and> pixel_at out 0 1 1 = 7 \<and> uint (pixel_at out 0 1 1) = 7 \<and>
      uint (pixel_at out 0 0 2) = 127)"
proof -
  have wf: "well_formed ex_image ex_world" by code_simp
  have ne: "0 < height ex_image * width ex_image" by code_simp
  have fa: "is_float64 (1 / 2)" by code_simp
  have ex: "exact_opacity (1 / 2)" by code_simp
  have a0: "(0::rat) \<le> 1 / 2" and a1: "(1 / 2 :: rat) \<le> 1" by simp_all
  have ov: "overlay_at ex_image ex_world 0 1 0 = 0" "overlay_at ex_image ex_world 0 1 1 = 5"
    "overlay_at ex_image ex_world 0 0 2 = 255"
    by code_simp+
  have ba: "base_at ex_image ex_world 0 1 0 = 10" "base_at ex_image ex_world 0 1 1 = 10"
    "base_at ex_image ex_world 0 0 2 = 0"
    by code_simp+
  have fl: "\<lfloor>1 / 2 * as_float 5 + (1 - 1 / 2) * as_float 10\<rfloor> = 7"
    "\<lfloor>1 / 2 * as_float 255 + (1 - 1 / 2) * as_float 0\<rfloor> = 127"
    by code_simp+
  have bl: "to_uint8 (f64_round (f64_round (1 / 2 * as_float 5)
                                 + f64_round (f64_round (1 - 1 / 2) * as_float 10))) = 7"
    by code_simp
  have dims: "length (heap ex_world) = 2" "height ex_image = 1" "width ex_image = 2"
    by code_simp+
  from as_annotated_composite [OF wf ne fa a0 a1] obtain out where
    ret: "as_annotated ex_image (1 / 2) ex_world =
            Return (length (heap ex_world)) (ex_world\<lparr>heap := heap ex_world @ [out]\<rparr>)"
    and shp: "shape out = [height ex_image, width ex_image, 3]"
    and px: "\<And>i j c. i < height ex_image \<Longrightarrow> j < width ex_image \<Longrightarrow> c < 3 \<Longrightarrow>
        (overlay_at ex_image ex_world i j c = 0 \<longrightarrow> pixel_at out i j c = base_at ex_image ex_world i j c) \<and>
        (overlay_at ex_image ex_world i j c \<noteq> 0 \<longrightarrow>
           pixel_at out i j c =
             to_uint8 (f64_round
               (f64_round (1 / 2 * as_float (overlay_at ex_image ex_world i j c))
                + f64_round (f64_round (1 - 1 / 2) * as_float (base_at ex_image ex_world i j c)))) \<and>
           (exact_opacity (1 / 2) \<longrightarrow>
              uint (pixel_at out i j c) =
                \<lfloor>1 / 2 * as_float (overlay_at ex_image ex_world i j c)
                   + (1 - 1 / 2) * as_float (base_at ex_image ex_world i j c)\<rfloor>))"
    by blast
  have p1: "pixel_at out 0 1 0 = 10" using px [of 0 1 0] ov ba dims by simp
  have q: "pixel_at out 0 1 1 =
      to_uint8 (f64_round (f64_round (1 / 2 * as_float 5)
                           + f64_round (f64_round (1 - 1 / 2) * as_float 10)))"
    using px [of 0 1 1] ov ba dims by simp
  have p2: "pixel_at out 0 1 1 = 7" unfolding q bl ..
  have pxe: "\<And>i j c. i < height ex_image \<Longrightarrow> j < width ex_image \<Longrightarrow> c < 3 \<Longrightarrow>
        overlay_at ex_image ex_world i j c \<noteq> 0 \<Longrightarrow>
        uint (pixel_at out i j c) =
          \<lfloor>1 / 2 * as_float (overlay_at ex_image ex_world i j c)
             + (1 - 1 / 2) * as_float (base_at ex_image ex_world i j c)\<rfloor>"
    using px ex by blast
  have "uint (pixel_at out 0 1 1) =
      \<lfloor>1 / 2 * as_float (overlay_at ex_image ex_world 0 1 1)
         + (1 - 1 / 2) * as_float (base_at ex_image ex_world 0 1 1)\<rfloor>"
    by (rule pxe) (use ov dims in simp_all)
  then have p3: "uint (pixel_at out 0 1 1) = 7" unfolding ov ba fl .
  have "uint (pixel_at out 0 0 2) =
      \<lfloor>1 / 2 * as_float (overlay_at ex_image ex_world 0 0 2)
         + (1 - 1 / 2) * as_float (base_at ex_image ex_world 0 0 2)\<rfloor>"
    by (rule pxe) (use ov dims in simp_all)
  then have p4: "uint (pixel_at out 0 0 2) = 127" unfolding ov ba fl .
  have "\<exists>out. as_annotated ex_image (1 / 2) ex_world =
        Return 2 (ex_world\<lparr>heap := heap ex_world @ [out]\<rparr>) \<and>
      shape out = [1, 2, 3] \<and>
      pixel_at out 0 1 0 = 10 \<and> pixel_at out 0 1 1 = 7 \<and> uint (pixel_at out 0 1 1) = 7 \<and>
      uint (pixel_at out 0 0 2) = 127"
    using ret shp dims p1 p2 p3 p4 by (intro exI [of _ out]) simp
  then show ?thesis using wf ne fa ex by simp
qed

text \<open>
  C1 as stated fails. At opacity 1/2 the right pixel of the example, whose overlay is
  (0, 5, 0) and so not all zero, keeps the base value 10 in its first channel, where the
  claim asks for the blend 5; and its middle channel holds 7, not 15/2. The left pixel,
  drawn with the colour of the default red, holds 127 in its last channel, not 255/2.
\<close>

theorem as_annotated_composite_counterexample:
  "well_formed ex_image ex_world \<and>
   raster_of (as_annotated ex_image (1 / 2) ex_world) =
     Some \<lparr>shape = [1, 2, 3], elems = [0, 0, 127, 10, 7, 10]\<rparr> \<and>
   overlay_at ex_image ex_world 0 1 1 \<noteq> 0 \<and>
   as_float (pixel_at \<lparr>shape = [1, 2, 3], elems = [0, 0, 127, 10, 7, 10]\<rparr> 0 1 0) = 10 \<and>
   1 / 2 * as_float (overlay_at ex_image ex_world 0 1 0)
     + (1 - 1 / 2) * as_float (base_at ex_image ex_world 0 1 0) = 5 \<and>
   as_float (pixel_at \<lparr>shape = [1, 2, 3], elems = [0, 0, 127, 10, 7, 10]\<rparr> 0 1 1) = 7 \<and>
   1 / 2 * as_float (overlay_at ex_image ex_world 0 1 1)
     + (1 - 1 / 2) * as_float (base_at ex_image ex_world 0 1 1) = 15 / 2 \<and>
   as_float (pixel_at \<lparr>shape = [1, 2, 3], elems = [0, 0, 127, 10, 7, 10]\<rparr> 0 0 2) = 127 \<and>
   1 / 2 * as_float (overlay_at ex_image ex_world 0 0 2)
     + (1 - 1 / 2) * as_float (base_at ex_image ex_world 0 0 2) = 255 / 2"
  by code_simp

text \<open>
  C4 (as amended). For an Image with an 8-bit base raster of one or three channels that is
  not empty, and a float64 opacity between 0 and 1: at every pixel whose overlay has no
  zero component each channel of the composite is \<open>alpha * overlay + (1 - alpha) * base\<close> as
  float64 arithmetic computes it, each operation rounded to the nearest float64, with its
  fraction dropped (truncated, not rounded); when the opacity is a multiple of \<open>2\<^sup>-\<^sup>4\<^sup>4\<close>
  that is the floor of the exact blend. At opacity 0 the composite equals the base raster
  at every pixel, and at opacity 1 it equals the overlay at every such pixel.
\<close>

theorem as_annotated_drawn_pixels:
  assumes "well_formed self w" and "0 < height self * width self"
    and "is_float64 alpha" and "0 \<le> alpha" and "alpha \<le> 1"
  shows "\<exists>out out0 out1.
           raster_of (as_annotated self alpha w) = Some out \<and>
           raster_of (as_annotated self 0 w) = Some out0 \<and>
           raster_of (as_annotated self 1 w) = Some out1 \<and>
           (\<forall>i j c. i < height self \<and> j < width self \<and> c < 3 \<longrightarrow>
              pixel_at out0 i j c = base_at self w i j c \<and>
              ((\<forall>c'<3. overlay_at self w i j c' \<noteq> 0) \<longrightarrow>
                 pixel_at out i j c =
                   to_uint8 (f64_round
                     (f64_round (alpha * as_float (overlay_at self w i j c))
                      + f64_round (f64_round (1 - alpha) * as_float (base_at self w i j c)))) \<and>
                 (exact_opacity alpha \<longrightarrow>
                    uint (pixel_at out i j c) =
                      \<lfloor>alpha * as_float (overlay_at self w i j c)
                         + (1 - alpha) * as_float (base_at self w i j c)\<rfloor>) \<and>
                 pixel_at out1 i j c = overlay_at self w i j c))"
proof -
  from as_annotated_elems [OF assms(1,2), of alpha] obtain out where
    ret: "as_annotated self alpha w = Return (length (heap w)) (w\<lparr>heap := heap w @ [out]\<rparr>)"
    and px: "\<And>i j c. i < height self \<Longrightarrow> j < width self \<Longrightarrow> c < 3 \<Longrightarrow>
              pixel_at out i j c =
                (if overlay_at self w i j c = 0 then base_at self w i j c
                 else blend alpha (overlay_at self w i j c) (base_at self w i j c))"
    by blast
  from as_annotated_elems [OF assms(1,2), of 0] obtain out0 where
    ret0: "as_annotated self 0 w = Return (length (heap w)) (w\<lparr>heap := heap w @ [out0]\<rparr>)"
    and px0: "\<And>i j c. i < height self \<Longrightarrow> j < width self \<Longrightarrow> c < 3 \<Longrightarrow>
              pixel_at out0 i j c =
                (if overlay_at self w i j c = 0 then base_at self w i j c
                 else blend 0 (overlay_at self w i j c) (base_at self w i j c))"
    by blast
  from as_annotated_elems [OF assms(1,2), of 1] obtain out1 where
    ret1: "as_annotated self 1 w = Return (length (heap w)) (w\<lparr>heap := heap w @ [out1]\<rparr>)"
    and px1: "\<And>i j c. i < height self \<Longrightarrow> j < width self \<Longrightarrow> c < 3 \<Longrightarrow>
              pixel_at out1 i j c =
                (if overlay_at self w i j c = 0 then base_at self w i j c
                 else blend 1 (overlay_at self w i j c) (base_at self w i j c))"
    by blast
  have r: "raster_of (as_annotated self alpha w) = Some out"
    "raster_of (as_annotated self 0 w) = Some out0"
    "raster_of (as_annotated self 1 w) = Some out1"
    using ret ret0 ret1 by simp_all
  have fl: "\<And>a t. exact_opacity alpha \<Longrightarrow>
      uint (to_uint8 (f64_round (f64_round (alpha * as_float a)
                                 + f64_round (f64_round (1 - alpha) * as_float t)))) =
        \<lfloor>alpha * as_float a + (1 - alpha) * as_float t\<rfloor>"
    using blend_floor unfolding blend_def .
  have px': "\<And>i j c. i < height self \<Longrightarrow> j < width self \<Longrightarrow> c < 3 \<Longrightarrow>
              pixel_at out i j c =
                (if overlay_at self w i j c = 0 then base_at self w i j c
                 else to_uint8 (f64_round
                     (f64_round (alpha * as_float (overlay_at self w i j c))
                      + f64_round (f64_round (1 - alpha) * as_float (base_at self w i j c)))))"
    using px unfolding blend_def .
  have "\<forall>i j c. i < height self \<and> j < width self \<and> c < 3 \<longrightarrow>
      pixel_at out0 i j c = base_at self w i j c \<and>
      ((\<forall>c'<3. overlay_at self w i j c' \<noteq> 0) \<longrightarrow>
         pixel_at out i j c =
           to_uint8 (f64_round
             (f64_round (alpha * as_float (overlay_at self w i j c))
              + f64_round (f64_round (1 - alpha) * as_float (base_at self w i j c)))) \<and>
         (exact_opacity alpha \<longrightarrow>
            uint (pixel_at out i j c) =
              \<lfloor>alpha * as_float (overlay_at self w i j c)
                 + (1 - alpha) * as_float (base_at self w i j c)\<rfloor>) \<and>
         pixel_at out1 i j c = overlay_at self w i j c)"
    using px' px0 px1 fl by (simp add: blend_0 blend_1)
  with r show ?thesis by blast
qed

theorem as_annotated_drawn_pixels_witness:
  "well_formed px_image px_drawn \<and> 0 < height px_image * width px_image \<and>
   is_float64 (3 / 4) \<and> (0::rat) \<le> 3 / 4 \<and> (3 / 4 :: rat) \<le> 1 \<and> exact_opacity (3 / 4) \<and>
   (\<exists>out out0 out1.
      raster_of (as_annotated px_image (3 / 4) px_drawn) = Some out \<and>
      raster_of (as_annotated px_image 0 px_drawn) = Some out0 \<and>
      raster_of (as_annotated px_image 1 px_drawn) = Some out1 \<and>
      pixel_at out0 0 0 0 = 200 \<and> pixel_at out 0 0 0 = 50 \<and> uint (pixel_at out 0 0 0) = 50 \<and>
      pixel_at out1 0 0 0 = 1)"
proof -
  have wf: "well_formed px_image px_drawn" by code_simp
  have ne: "0 < height px_image * width px_image" by code_simp
  have fa: "is_float64 (3 / 4)" by code_simp
  have ex: "exact_opacity (3 / 4)" by code_simp
  have a0: "(0::rat) \<le> 3 / 4" and a1: "(3 / 4 :: rat) \<le> 1" by simp_all
  have ov: "overlay_at px_image px_drawn 0 0 0 = 1" "overlay_at px_image px_drawn 0 0 1 = 255"
    "overlay_at px_image px_drawn 0 0 2 = 1"
    by code_simp+
  have ba: "base_at px_image px_drawn 0 0 0 = 200" by code_simp
  have fl: "\<lfloor>3 / 4 * as_float 1 + (1 - 3 / 4) * as_float 200\<rfloor> = 50" by code_simp
  have bl: "to_uint8 (f64_round (f64_round (3 / 4 * as_float 1)
                                 + f64_round (f64_round (1 - 3 / 4) * as_float 200))) = 50"
    by code_simp
  have dims: "height px_image = 1" "width px_image = 1" by code_simp+
  have drawn: "\<forall>c'<3. overlay_at px_image px_drawn 0 0 c' \<noteq> 0"
  proof (intro allI impI)
    fix c' :: nat
    assume "c' < 3"
    then have "c' = 0 \<or> c' = 1 \<or> c' = 2" by auto
    then show "overlay_at px_image px_drawn 0 0 c' \<noteq> 0" using ov by auto
  qed
  from as_annotated_drawn_pixels [OF wf ne fa a0 a1] obtain out out0 out1 where
    r: "raster_of (as_annotated px_image (3 / 4) px_drawn) = Some out"
      "raster_of (as_annotated px_image 0 px_drawn) = Some out0"
      "raster_of (as_annotated px_image 1 px_drawn) = Some out1"
    and px: "\<And>i j c. i < height px_image \<Longrightarrow> j < width px_image \<Longrightarrow> c < 3 \<Longrightarrow>
        pixel_at out0 i j c = base_at px_image px_drawn i j c \<and>
        ((\<forall>c'<3. overlay_at px_image px_drawn i j c' \<noteq> 0) \<longrightarrow>
           pixel_at out i j c =
             to_uint8 (f64_round
               (f64_round (3 / 4 * as_float (overlay_at px_image px_drawn i j c))
                + f64_round (f64_round (1 - 3 / 4) * as_float (base_at px_image px_drawn i j c)))) \<and>
           (exact_opacity (3 / 4) \<longrightarrow>
              uint (pixel_at out i j c) =
                \<lfloor>3 / 4 * as_float (overlay_at px_image px_drawn i j c)
                   + (1 - 3 / 4) * as_float (base_at px_image px_drawn i j c)\<rfloor>) \<and>
           pixel_at out1 i j c = overlay_at px_image px_drawn i j c)"
    by blast
  have b: "(0::nat) < height px_image" "(0::nat) < width px_image" "(0::nat) < 3"
    by (simp_all add: dims)
  from px [OF b] have all0: "pixel_at out0 0 0 0 = base_at px_image px_drawn 0 0 0"
    and rest: "(\<forall>c'<3. overlay_at px_image px_drawn 0 0 c' \<noteq> 0) \<longrightarrow>
      pixel_at out 0 0 0 =
        to_uint8 (f64_round
          (f64_round (3 / 4 * as_float (overlay_at px_image px_drawn 0 0 0))
           + f64_round (f64_round (1 - 3 / 4) * as_float (base_at px_image px_drawn 0 0 0)))) \<and>
      (exact_opacity (3 / 4) \<longrightarrow>
         uint (pixel_at out 0 0 0) =
           \<lfloor>3 / 4 * as_float (overlay_at px_image px_drawn 0 0 0)
              + (1 - 3 / 4) * as_float (base_at px_image px_drawn 0 0 0)\<rfloor>) \<and>
      pixel_at out1 0 0 0 = overlay_at px_image px_drawn 0 0 0"
    by (rule conjunct1, rule conjunct2)
  from rest drawn have q: "pixel_at out 0 0 0 =
        to_uint8 (f64_round
          (f64_round (3 / 4 * as_float (overlay_at px_image px_drawn 0 0 0))
           + f64_round (f64_round (1 - 3 / 4) * as_float (base_at px_image px_drawn 0 0 0))))"
    and e: "exact_opacity (3 / 4) \<longrightarrow>
         uint (pixel_at out 0 0 0) =
           \<lfloor>3 / 4 * as_float (overlay_at px_image px_drawn 0 0 0)
              + (1 - 3 / 4) * as_float (base_at px_image px_drawn 0 0 0)\<rfloor>"
    and o1: "pixel_at out1 0 0 0 = overlay_at px_image px_drawn 0 0 0"
    by blast+
  have p0: "pixel_at out0 0 0 0 = 200" using all0 unfolding ba .
  have p1: "pixel_at out 0 0 0 = 50" using q unfolding ov ba bl .
  from e ex have "uint (pixel_at out 0 0 0) =
           \<lfloor>3 / 4 * as_float (overlay_at px_image px_drawn 0 0 0)
              + (1 - 3 / 4) * as_float (base_at px_image px_drawn 0 0 0)\<rfloor>"
    by (rule mp)
  then have p2: "uint (pixel_at out 0 0 0) = 50" unfolding ov ba fl .
  have p3: "pixel_at out1 0 0 0 = 1" using o1 unfolding ov .
  from r wf ne fa ex p0 p1 p2 p3 show ?thesis by simp
qed

text \<open>
  C4 as stated fails. A one-pixel grey image of value 200 is wrapped, a point is drawn with
  the colour (0, 255, 0), which reaches the overlay as (1, 255, 1), and the composite is
  taken at opacity 3/4: its first channel is 50, while the blend 3/4 * 1 + 1/4 * 200 = 50.75
  rounds to 51.
\<close>

theorem as_annotated_round_counterexample:
  "Image_init toy_cv2 (FromArray 0) [] ''px'' px_world = Return px_image px_blank \<and>
   annotate_point toy_cv2 px_image (0, 0) (0, 255, 0) px_blank = Return () px_drawn \<and>
   overlay_at px_image px_drawn 0 0 0 = 1 \<and> overlay_at px_image px_drawn 0 0 1 = 255 \<and>
   overlay_at px_image px_drawn 0 0 2 = 1 \<and> base_at px_image px_drawn 0 0 0 = 200 \<and>
   raster_of (as_annotated px_image (3 / 4) px_drawn) = Some \<lparr>shape = [1, 1, 3], elems = [50, 241, 50]\<rparr> \<and>
   uint (pixel_at \<lparr>shape = [1, 1, 3], elems = [50, 241, 50]\<rparr> 0 0 0) = 50 \<and>
   round (3 / 4 * as_float (overlay_at px_image px_drawn 0 0 0)
          + (1 - 3 / 4) * as_float (base_at px_image px_drawn 0 0 0)) = 51"
  by code_simp

subsection \<open>as_annotated changes nothing and repeats itself\<close>

text \<open>
  C2. A call of \<^verbatim>\<open>as_annotated\<close> on an Image whose two references are live either raises and
  leaves the world as it was, or returns a newly allocated array: no native drawing call is
  logged, every array that existed is unchanged (the base raster and the overlay among
  them), and a second call with the same opacity on the world after the first returns an
  array equal to the first.
\<close>

theorem as_annotated_pure:
  assumes "data self < length (heap w)" and "annotation_data self < length (heap w)"
  shows "(case as_annotated self alpha w of
            Raise e w' \<Rightarrow> w' = w
          | Return a w' \<Rightarrow>
              a = length (heap w) \<and> calls w' = calls w \<and>
              length (heap w') = Suc (length (heap w)) \<and>
              take (length (heap w)) (heap w') = heap w \<and>
              heap w' ! data self = heap w ! data self \<and>
              heap w' ! annotation_data self = heap w ! annotation_data self \<and>
              (\<exists>a' w''. as_annotated self alpha w' = Return a' w'' \<and> heap w'' ! a' = heap w' ! a))"
proof (cases "if nchannels self = 1 then cvtColor_GRAY2BGR (heap w ! data self)
              else Some (heap w ! data self)")
  case None
  then show ?thesis unfolding as_annotated_def Let_def by simp
next
  case (Some tmp)
  let ?ann = "heap w ! annotation_data self"
  show ?thesis
  proof (cases "masked_assign alpha ?ann tmp (nonzero ?ann) (elems tmp)")
    case None
    with Some show ?thesis unfolding as_annotated_def Let_def by simp
  next
    case (Some es)
    let ?w' = "w\<lparr>heap := heap w @ [tmp\<lparr>elems := es\<rparr>]\<rparr>"
    have first: "as_annotated self alpha w = Return (length (heap w)) ?w'"
      using \<open>_ = Some tmp\<close> Some unfolding as_annotated_def Let_def alloc_def by simp
    have d: "heap ?w' ! data self = heap w ! data self"
      and a: "heap ?w' ! annotation_data self = heap w ! annotation_data self"
      using assms by (simp_all add: nth_append)
    let ?w'' = "?w'\<lparr>heap := heap ?w' @ [tmp\<lparr>elems := es\<rparr>]\<rparr>"
    have second: "as_annotated self alpha ?w' = Return (Suc (length (heap w))) ?w''"
      using \<open>_ = Some tmp\<close> Some unfolding as_annotated_def Let_def alloc_def d a by simp
    have same: "heap ?w'' ! Suc (length (heap w)) = heap ?w' ! length (heap w)"
      by (simp add: nth_append)
    have "\<exists>a' w''. as_annotated self alpha ?w' = Return a' w'' \<and>
        heap w'' ! a' = heap ?w' ! length (heap w)"
      using second same by blast
    then show ?thesis unfolding first using d a by simp
  qed
qed

lemma ex_as_annotated: "as_annotated ex_image (1 / 2) ex_world = Return 2 ex_after"
  by code_simp

theorem as_annotated_pure_witness:
  "data ex_image < length (heap ex_world) \<and> annotation_data ex_image < length (heap ex_world) \<and>
   as_annotated ex_image (1 / 2) ex_world = Return 2 ex_after \<and>
   calls ex_after = calls ex_world \<and>
   heap ex_after ! data ex_image = heap ex_world ! data ex_image \<and>
   heap ex_after ! annotation_data ex_image = heap ex_world ! annotation_data ex_image \<and>
   (\<exists>a' w''. as_annotated ex_image (1 / 2) ex_after = Return a' w'' \<and> heap w'' ! a' = heap ex_after ! 2)"
proof -
  have h: "data ex_image < length (heap ex_world)" "annotation_data ex_image < length (heap ex_world)"
    by code_simp+
  have c: "2 = length (heap ex_world) \<and> calls ex_after = calls ex_world \<and>
      length (heap ex_after) = Suc (length (heap ex_world)) \<and>
      take (length (heap ex_world)) (heap ex_after) = heap ex_world \<and>
      heap ex_after ! data ex_image = heap ex_world ! data ex_image \<and>
      heap ex_after ! annotation_data ex_image = heap ex_world ! annotation_data ex_image \<and>
      (\<exists>a' w''. as_annotated ex_image (1 / 2) ex_after = Return a' w'' \<and> heap w'' ! a' = heap ex_after ! 2)"
    using as_annotated_pure [OF h, of "1 / 2"] unfolding ex_as_annotated result.case .
  show ?thesis using h ex_as_annotated c by blast
qed

section \<open>Annotation\<close>

subsection \<open>Every method is a sequence of native drawing calls on the overlay\<close>

text \<open>
  A reflexive and transitive relation that holds across every native drawing call on the
  overlay holds across every annotation method, whether it returns or raises.
\<close>

lemma bind_result_rel:
  assumes pre: "world_preorder R"
    and m: "R w (world_of m)"
    and f: "\<And>x w1. R w1 (world_of (f x w1))"
  shows "R w (world_of (bind_result m f))"
proof (cases m)
  case (Raise e w')
  then show ?thesis using m by simp
next
  case (Return x w')
  have "R w w'" using m Return by simp
  moreover have "R w' (world_of (f x w'))" by (rule f)
  ultimately have "R w (world_of (f x w'))" using pre unfolding world_preorder_def by blast
  then show ?thesis using Return by simp
qed

lemma for_each_rel:
  assumes pre: "world_preorder R"
    and body: "\<And>x w1. R w1 (world_of (body x w1))"
  shows "R w (world_of (for_each xs body w))"
proof (induction xs arbitrary: w)
  case Nil
  show ?case using pre unfolding world_preorder_def by simp
next
  case (Cons x xs)
  show ?case
    unfolding for_each.simps
    by (rule bind_result_rel [OF pre body Cons.IH])
qed

lemma across_drawsD:
  assumes "across_draws cv self C R" "call_target call = annotation_data self"
    "call_color call = fix_color_tuple col" "col \<in> C"
  shows "R w (world_of (cv2_draw cv call w))"
  using assms unfolding across_draws_def by blast

lemma annotate_line_rel:
  assumes "across_draws cv self C R" "col \<in> C"
  shows "R w (world_of (annotate_line cv self p q col opts w))"
  unfolding annotate_line_def Let_def by (rule across_drawsD [OF assms(1) _ _ assms(2)]) simp_all

lemma annotate_rect_rel:
  assumes "across_draws cv self C R" "col \<in> C"
  shows "R w (world_of (annotate_rect cv self p q col opts w))"
  unfolding annotate_rect_def Let_def by (rule across_drawsD [OF assms(1) _ _ assms(2)]) simp_all

lemma annotate_circle_rel:
  assumes "across_draws cv self C R" "col \<in> C"
  shows "R w (world_of (annotate_circle cv self ctr r col opts w))"
  unfolding annotate_circle_def Let_def by (rule across_drawsD [OF assms(1) _ _ assms(2)]) simp_all

lemma draw_segments_rel:
  assumes "world_preorder R" "across_draws cv self C R" "col \<in> C"
  shows "R w (world_of (draw_segments cv self cs col opts w))"
  unfolding draw_segments_def Let_def
  by (rule for_each_rel [OF assms(1)]) (rule annotate_line_rel [OF assms(2,3)])

lemma annotate_text_rel:
  assumes pre: "world_preorder R" and step: "across_draws cv self C R"
    and col: "col \<in> C" and bg: "\<And>c. bg_color = Some c \<Longrightarrow> c \<in> C"
  shows "R w (world_of (annotate_text cv self txt pt col bg_color ff fs opts w))"
proof -
  have first: "R w (world_of (case bg_color of
          None \<Rightarrow> Return () w
        | Some bg \<Rightarrow>
            (case getTextSize cv txt ff fs 1 of
               (tw, th) \<Rightarrow>
                 let point1 = (fst pt - 1, snd pt + 1);
                     point2 = (fst point1 + tw + 2, snd point1 - th - 2)
                 in annotate_rect cv self point1 point2 bg (default_opts\<lparr>thickness := - 1\<rparr>) w)))"
  proof (cases bg_color)
    case None
    then show ?thesis using pre unfolding world_preorder_def by simp
  next
    case (Some c)
    then show ?thesis
      using annotate_rect_rel [OF step bg [OF Some]]
      by (simp add: Let_def split: prod.splits)
  qed
  have second: "\<And>x w1. R w1 (world_of (cv2_draw cv
        (Cv2PutText (annotation_data self) txt pt ff fs (fix_color_tuple col) opts) w1))"
    by (rule across_drawsD [OF step _ _ col]) simp_all
  show ?thesis
    using bind_result_rel [OF pre first second] unfolding annotate_text_def Let_def .
qed

lemma annotate_shape_rel:
  assumes pre: "world_preorder R" and step: "across_draws cv self C R"
    and col: "col \<in> C" and fc: "\<And>c. fill_color = Some c \<Longrightarrow> c \<in> C"
  shows "R w (world_of (annotate_shape cv self g col fill_color opts w))"
proof (cases g)
  case (LineString cs)
  then show ?thesis using draw_segments_rel [OF pre step col] by simp
next
  case (LinearRing cs)
  then show ?thesis using draw_segments_rel [OF pre step col] by simp
next
  case (MultiLineString ls)
  have "R w (world_of (for_each ls (\<lambda>line_string. draw_segments cv self line_string col opts) w))"
    by (rule for_each_rel [OF pre]) (rule draw_segments_rel [OF pre step col])
  then show ?thesis using MultiLineString by simp
next
  case (Polygon ext ints)
  have first: "R w (world_of (case fill_color of
          None \<Rightarrow> Return () w
        | Some fc \<Rightarrow>
            (let c = fix_color_tuple fc;
                 exterior = map (\<lambda>(x, y). (py_int x, py_int y)) ext;
                 interiors = map (map (\<lambda>(x, y). (py_int x, py_int y))) ints
             in cv2_draw cv (Cv2FillPoly (annotation_data self) ([exterior] @ interiors) c) w)))"
  proof (cases fill_color)
    case None
    then show ?thesis using pre unfolding world_preorder_def by simp
  next
    case (Some c)
    have "R w (world_of (cv2_draw cv (Cv2FillPoly (annotation_data self)
        ([map (\<lambda>(x, y). (py_int x, py_int y)) ext] @ map (map (\<lambda>(x, y). (py_int x, py_int y))) ints)
        (fix_color_tuple c)) w))"
      by (rule across_drawsD [OF step _ _ fc [OF Some]]) simp_all
    then show ?thesis using Some by (simp add: Let_def)
  qed
  have holes: "\<And>x w2. R w2 (world_of (for_each ints
        (\<lambda>interior_ring. draw_segments cv self interior_ring col opts) w2))"
    by (rule for_each_rel [OF pre]) (rule draw_segments_rel [OF pre step col])
  have strokes: "\<And>x w1. R w1 (world_of (bind_result (draw_segments cv self ext col opts w1)
        (\<lambda>_. for_each ints (\<lambda>interior_ring. draw_segments cv self interior_ring col opts))))"
    by (rule bind_result_rel [OF pre draw_segments_rel [OF pre step col] holes])
  show ?thesis
    unfolding Polygon annotate_shape.simps
    by (rule bind_result_rel [OF pre first strokes])
qed (use pre in \<open>simp_all add: world_preorder_def\<close>)

lemma annotate_rel:
  assumes pre: "world_preorder R" and step: "across_draws cv self (set (given_colors op)) R"
  shows "R w (world_of (annotate cv self op w))"
proof (cases op)
  case (AnnotateShape g col fc opts)
  have "R w (world_of (annotate_shape cv self g col fc opts w))"
    by (rule annotate_shape_rel [OF pre step]) (simp_all add: AnnotateShape)
  then show ?thesis using AnnotateShape by simp
next
  case (AnnotatePoint p col)
  have "R w (world_of (annotate_circle cv self p 3 col (default_opts\<lparr>thickness := - 1\<rparr>) w))"
    by (rule annotate_circle_rel [OF step]) (simp add: AnnotatePoint)
  then show ?thesis using AnnotatePoint by (simp add: annotate_point_def)
next
  case (AnnotateCircle p r col opts)
  have "R w (world_of (annotate_circle cv self p r col opts w))"
    by (rule annotate_circle_rel [OF step]) (simp add: AnnotateCircle)
  then show ?thesis using AnnotateCircle by simp
next
  case (AnnotateLine p q col opts)
  have "R w (world_of (annotate_line cv self p q col opts w))"
    by (rule annotate_line_rel [OF step]) (simp add: AnnotateLine)
  then show ?thesis using AnnotateLine by simp
next
  case (AnnotateRect p q col opts)
  have "R w (world_of (annotate_rect cv self p q col opts w))"
    by (rule annotate_rect_rel [OF step]) (simp add: AnnotateRect)
  then show ?thesis using AnnotateRect by simp
next
  case (AnnotateText t p col bg ff fs opts)
  have "R w (world_of (annotate_text cv self t p col bg ff fs opts w))"
    by (rule annotate_text_rel [OF pre step]) (simp_all add: AnnotateText)
  then show ?thesis using AnnotateText by simp
qed

subsection \<open>Colours\<close>

lemma fix_color_tuple_eq:
  "fix_color_tuple (r, g, b) = (if b = 0 then 1 else b, if g = 0 then 1 else g, if r = 0 then 1 else r)"
  by (simp add: fix_color_tuple_def Let_def)

lemma cv2_draw_calls: "calls (world_of (cv2_draw cv call w)) = calls w @ [call]"
  by (simp add: cv2_draw_def Let_def)

lemma logged_preorder:
  "world_preorder (\<lambda>w w'. \<exists>new. calls w' = calls w @ new \<and> (\<forall>c \<in> set new. P c))"
  unfolding world_preorder_def
proof (intro conjI allI impI)
  fix a :: world
  show "\<exists>new. calls a = calls a @ new \<and> (\<forall>c \<in> set new. P c)"
    by (intro exI [of _ "[]"]) simp
next
  fix a b c :: world
  assume "\<exists>new. calls b = calls a @ new \<and> (\<forall>c \<in> set new. P c)"
    and "\<exists>new. calls c = calls b @ new \<and> (\<forall>c \<in> set new. P c)"
  then obtain n1 n2 where "calls b = calls a @ n1" "\<forall>c \<in> set n1. P c"
    "calls c = calls b @ n2" "\<forall>c \<in> set n2. P c"
    by blast
  then show "\<exists>new. calls c = calls a @ new \<and> (\<forall>c \<in> set new. P c)"
    by (intro exI [of _ "n1 @ n2"]) auto
qed

lemma logged_across_draws:
  "across_draws cv self C
     (\<lambda>w w'. \<exists>new. calls w' = calls w @ new \<and>
        (\<forall>c \<in> set new. call_target c = annotation_data self \<and> call_color c \<in> fix_color_tuple ` C))"
  unfolding across_draws_def
proof (intro allI impI)
  fix call w
  assume "call_target call = annotation_data self" "call_color call \<in> fix_color_tuple ` C"
  then show "\<exists>new. calls (world_of (cv2_draw cv call w)) = calls w @ new \<and>
      (\<forall>c \<in> set new. call_target c = annotation_data self \<and> call_color c \<in> fix_color_tuple ` C)"
    by (intro exI [of _ "[call]"]) (simp add: cv2_draw_calls)
qed

lemma annotate_logged:
  "\<exists>new. calls (world_of (annotate cv self op w)) = calls w @ new \<and>
     (\<forall>c \<in> set new. call_target c = annotation_data self \<and>
        call_color c \<in> fix_color_tuple ` set (given_colors op))"
proof -
  let ?P = "\<lambda>c. call_target c = annotation_data self \<and>
      call_color c \<in> fix_color_tuple ` set (given_colors op)"
  let ?R = "\<lambda>w w'. \<exists>new. calls w' = calls w @ new \<and> (\<forall>c \<in> set new. ?P c)"
  have pre: "world_preorder ?R" by (rule logged_preorder [where P = ?P])
  have step: "across_draws cv self (set (given_colors op)) ?R"
    by (rule logged_across_draws [where C = "set (given_colors op)"])
  show ?thesis by (rule annotate_rel [where R = ?R, OF pre step])
qed

text \<open>
  C3. Whatever a public annotation operation (\<^verbatim>\<open>annotate_shape\<close>, \<^verbatim>\<open>annotate_point\<close>,
  \<^verbatim>\<open>annotate_circle\<close>, \<^verbatim>\<open>annotate_line\<close>, \<^verbatim>\<open>annotate_rect\<close>, \<^verbatim>\<open>annotate_text\<close>) does, every
  native drawing call it issues carries one of the (R,G,B) colours the operation was given,
  reordered to (B,G,R) and with each component that is 0 replaced by 1; so no component of
  a colour handed to a native call is 0.
\<close>

theorem annotate_color_convention:
  "\<exists>new. calls (world_of (annotate cv self op w)) = calls w @ new \<and>
     (\<forall>call \<in> set new. \<exists>rgb \<in> set (given_colors op).
        (case rgb of (r, g, b) \<Rightarrow>
           call_color call = (if b = 0 then 1 else b, if g = 0 then 1 else g, if r = 0 then 1 else r)) \<and>
        (case call_color call of (c0, c1, c2) \<Rightarrow> c0 \<noteq> 0 \<and> c1 \<noteq> 0 \<and> c2 \<noteq> 0))"
proof -
  from annotate_logged [of cv self op w] obtain new where
    new: "calls (world_of (annotate cv self op w)) = calls w @ new"
    and col: "\<And>c. c \<in> set new \<Longrightarrow> call_color c \<in> fix_color_tuple ` set (given_colors op)"
    by blast
  show ?thesis
  proof (intro exI [of _ new] conjI ballI)
    show "calls (world_of (annotate cv self op w)) = calls w @ new" by (rule new)
  next
    fix call
    assume "call \<in> set new"
    from col [OF this] obtain rgb where rgb: "rgb \<in> set (given_colors op)"
      and cc: "call_color call = fix_color_tuple rgb"
      by (rule imageE)
    obtain r g b where eq: "rgb = (r, g, b)" by (cases rgb)
    have cc': "call_color call =
        (if b = 0 then 1 else b, if g = 0 then 1 else g, if r = 0 then 1 else r)"
      using cc unfolding eq fix_color_tuple_eq .
    have nz: "case call_color call of (c0, c1, c2) \<Rightarrow> c0 \<noteq> 0 \<and> c1 \<noteq> 0 \<and> c2 \<noteq> 0"
      unfolding cc' by simp
    have "case rgb of (r, g, b) \<Rightarrow>
        call_color call = (if b = 0 then 1 else b, if g = 0 then 1 else g, if r = 0 then 1 else r)"
      unfolding eq prod.case by (rule cc')
    with nz rgb show "\<exists>rgb \<in> set (given_colors op).
        (case rgb of (r, g, b) \<Rightarrow>
           call_color call = (if b = 0 then 1 else b, if g = 0 then 1 else g, if r = 0 then 1 else r)) \<and>
        (case call_color call of (c0, c1, c2) \<Rightarrow> c0 \<noteq> 0 \<and> c1 \<noteq> 0 \<and> c2 \<noteq> 0)"
      by (intro bexI [of _ rgb] conjI)
  qed
qed

lemma px_line_calls:
  "calls (world_of (annotate toy_cv2 px_image (AnnotateLine (0, 0) (0, 0) (0, 255, 0) default_opts) px_blank)) =
     calls px_blank @ [Cv2Line 1 (0, 0) (0, 0) (1, 255, 1) default_opts]"
  by code_simp

theorem annotate_color_convention_witness:
  "calls (world_of (annotate toy_cv2 px_image (AnnotateLine (0, 0) (0, 0) (0, 255, 0) default_opts) px_blank)) =
     calls px_blank @ [Cv2Line 1 (0, 0) (0, 0) (1, 255, 1) default_opts] \<and>
   given_colors (AnnotateLine (0, 0) (0, 0) (0, 255, 0) default_opts) = [(0, 255, 0)] \<and>
   call_color (Cv2Line 1 (0, 0) (0, 0) (1, 255, 1) default_opts) = (1, 255, 1) \<and>
   (case call_color (Cv2Line 1 (0, 0) (0, 0) (1, 255, 1) default_opts) of
      (c0, c1, c2) \<Rightarrow> c0 \<noteq> 0 \<and> c1 \<noteq> 0 \<and> c2 \<noteq> 0)"
proof -
  let ?op = "AnnotateLine (0, 0) (0, 0) (0, 255, 0) default_opts"
  let ?call = "Cv2Line 1 (0, 0) (0, 0) (1, 255, 1) default_opts"
  from annotate_color_convention [of toy_cv2 px_image ?op px_blank] obtain new where
    new: "calls (world_of (annotate toy_cv2 px_image ?op px_blank)) = calls px_blank @ new"
    and col: "\<forall>call \<in> set new. \<exists>rgb \<in> set (given_colors ?op).
        (case rgb of (r, g, b) \<Rightarrow>
           call_color call = (if b = 0 then 1 else b, if g = 0 then 1 else g, if r = 0 then 1 else r)) \<and>
        (case call_color call of (c0, c1, c2) \<Rightarrow> c0 \<noteq> 0 \<and> c1 \<noteq> 0 \<and> c2 \<noteq> 0)"
    by blast
  from new have "calls px_blank @ new = calls px_blank @ [?call]"
    by (simp only: px_line_calls)
  then have "new = [?call]" by (simp only: same_append_eq)
  with col have "\<exists>rgb \<in> set (given_colors ?op).
        (case rgb of (r, g, b) \<Rightarrow>
           call_color ?call = (if b = 0 then 1 else b, if g = 0 then 1 else g, if r = 0 then 1 else r)) \<and>
        (case call_color ?call of (c0, c1, c2) \<Rightarrow> c0 \<noteq> 0 \<and> c1 \<noteq> 0 \<and> c2 \<noteq> 0)"
    by simp
  then have nz: "case call_color ?call of (c0, c1, c2) \<Rightarrow> c0 \<noteq> 0 \<and> c1 \<noteq> 0 \<and> c2 \<noteq> 0"
    by (elim bexE conjE)
  have gc: "given_colors ?op = [(0, 255, 0)]" by simp
  have cc: "call_color ?call = (1, 255, 1)" by simp
  show ?thesis by (intro conjI px_line_calls gc cc nz)
qed

subsection \<open>Drawing keeps every shape\<close>

lemma store_at_length: "length (store_at k vs es) = length es"
  by (induction vs arbitrary: k es) simp_all

lemma put_pixel_shape: "shape (put_pixel col a p) = shape a"
  by (cases p) (simp add: put_pixel_def)

lemma put_pixel_length: "length (elems (put_pixel col a p)) = length (elems a)"
  by (cases p) (simp add: put_pixel_def store_at_length)

lemma paint_shape: "shape (paint ps col a) = shape a"
  unfolding paint_def by (induction ps arbitrary: a) (simp_all add: put_pixel_shape)

lemma paint_length: "length (elems (paint ps col a)) = length (elems a)"
  unfolding paint_def by (induction ps arbitrary: a) (simp_all add: put_pixel_length)

lemma buffers_kept_preorder: "world_preorder (buffers_kept self)"
  unfolding world_preorder_def buffers_kept_def by auto

lemma buffers_kept_across_draws: "across_draws cv self C (buffers_kept self)"
  unfolding across_draws_def
proof (intro allI impI)
  fix call w
  assume t: "call_target call = annotation_data self"
  show "buffers_kept self w (world_of (cv2_draw cv call w))"
  proof (cases "accepts cv call \<and> drawable (heap w ! call_target call)")
    case False
    then show ?thesis by (auto simp: cv2_draw_def Let_def buffers_kept_def)
  next
    case True
    then have "heap (world_of (cv2_draw cv call w)) =
        (heap w)[annotation_data self :=
           paint (pixels_of cv call (heap w ! annotation_data self)) (call_color call)
             (heap w ! annotation_data self)]"
      using t by (simp add: cv2_draw_def Let_def)
    moreover have "shape ((heap w)[k := paint ps col (heap w ! k)] ! a) = shape (heap w ! a)"
      "length (elems ((heap w)[k := paint ps col (heap w ! k)] ! a)) = length (elems (heap w ! a))"
      if "a < length (heap w)" for a k ps col
      using that by (cases "a = k"; simp add: paint_shape paint_length)+
    ultimately show ?thesis
      unfolding buffers_kept_def by simp
  qed
qed

lemma annotate_buffers_kept: "buffers_kept self w (world_of (annotate cv self op w))"
  by (rule annotate_rel [where R = "buffers_kept self",
        OF buffers_kept_preorder buffers_kept_across_draws])

lemma annotate_all_buffers_kept: "buffers_kept self w (annotate_all cv self ops w)"
proof (induction ops arbitrary: w)
  case Nil
  show ?case using buffers_kept_preorder [of self]
    unfolding world_preorder_def annotate_all_def by simp
next
  case (Cons op ops)
  have 1: "buffers_kept self w (world_of (annotate cv self op w))"
    by (rule annotate_buffers_kept)
  have 2: "buffers_kept self (world_of (annotate cv self op w))
      (annotate_all cv self ops (world_of (annotate cv self op w)))"
    by (rule Cons.IH)
  have "buffers_kept self w (annotate_all cv self ops (world_of (annotate cv self op w)))"
    using buffers_kept_preorder [of self] 1 2 unfolding world_preorder_def by blast
  then show ?case by (simp add: annotate_all_def)
qed

subsection \<open>What the constructor leaves\<close>

lemma Image_init_Return:
  assumes v: "valid_source src w0" and r: "Image_init cv src args dsc w0 = Return self w1"
  shows "length (heap w1) = Suc (annotation_data self)"
    and "length (heap w0) \<le> annotation_data self"
    and "data self < annotation_data self"
    and "heap w1 ! annotation_data self = np_zeros [height self, width self, 3]"
    and "take 2 (shape (heap w1 ! data self)) = [height self, width self]"
    and "\<forall>b < length (heap w0). heap w1 ! b = heap w0 ! b"
    and "calls w1 = calls w0"
    and "case src of FromArray a \<Rightarrow> data self = a | _ \<Rightarrow> data self = length (heap w0)"
    and "nchannels self =
           (if length (shape (heap w1 ! data self)) = 3 then shape (heap w1 ! data self) ! 2 else 1)"
proof -
  define got where "got = (case src of
      FromArray a \<Rightarrow> Some (a, w0)
    | FromPath p \<Rightarrow> map_option (\<lambda>arr. alloc arr w0) (imread cv p args)
    | FromFile buf \<Rightarrow> map_option (\<lambda>arr. alloc arr w0) (imdecode cv buf))"
  from r obtain d wa where got: "got = Some (d, wa)"
    unfolding Image_init_def got_def by (cases got) (auto simp: got_def)
  from r got obtain h wd where hw: "take 2 (shape (heap wa ! d)) = [h, wd]"
    unfolding Image_init_def got_def [symmetric]
    by (auto split: list.splits)
  from r got hw have self: "self = \<lparr>desc = dsc, data = d, height = h, width = wd,
        nchannels = (if length (shape (heap wa ! d)) = 3 then shape (heap wa ! d) ! 2 else 1),
        annotation_data = length (heap wa)\<rparr>"
    and w1: "w1 = wa\<lparr>heap := heap wa @ [np_zeros [h, wd, 3]]\<rparr>"
    unfolding Image_init_def got_def [symmetric] by (auto simp: Let_def alloc_def)
  have wa: "d < length (heap wa) \<and> length (heap w0) \<le> length (heap wa) \<and> calls wa = calls w0 \<and>
      (\<forall>b < length (heap w0). heap wa ! b = heap w0 ! b) \<and>
      (case src of FromArray a \<Rightarrow> d = a | _ \<Rightarrow> d = length (heap w0))"
    using got v unfolding got_def
    by (cases src) (auto simp: alloc_def nth_append)
  show "length (heap w1) = Suc (annotation_data self)" using self w1 by simp
  show "length (heap w0) \<le> annotation_data self" using self wa by simp
  show "data self < annotation_data self" using self wa by simp
  show "heap w1 ! annotation_data self = np_zeros [height self, width self, 3]"
    using self w1 by simp
  show "take 2 (shape (heap w1 ! data self)) = [height self, width self]"
    using self w1 wa hw by (simp add: nth_append)
  show "\<forall>b < length (heap w0). heap w1 ! b = heap w0 ! b"
    using w1 wa by (auto simp: nth_append)
  show "calls w1 = calls w0" using w1 wa by simp
  show "case src of FromArray a \<Rightarrow> data self = a | _ \<Rightarrow> data self = length (heap w0)"
    using self wa by (cases src) simp_all
  show "nchannels self =
      (if length (shape (heap w1 ! data self)) = 3 then shape (heap w1 ! data self) ! 2 else 1)"
    using self w1 wa by (simp add: nth_append)
qed

text \<open>
  The Images that the compositing theorems are about are those the constructor builds from
  an 8-bit raster of one or three channels, and annotation keeps them so.
\<close>

lemma Image_init_well_formed:
  assumes v: "valid_source src w0" and r: "Image_init cv src args dsc w0 = Return self w1"
    and n: "length (elems (heap w1 ! data self)) = prod_list (shape (heap w1 ! data self))"
    and c: "shape (heap w1 ! data self) = [h, wd] \<or> shape (heap w1 ! data self) = [h, wd, 1] \<or>
            shape (heap w1 ! data self) = [h, wd, 3]"
  shows "well_formed self w1"
proof -
  note I = Image_init_Return [OF v r]
  let ?dat = "heap w1 ! data self"
  have hw: "h = height self" "wd = width self" using I(5) c by auto
  have valid: "data self < length (heap w1)" "annotation_data self < length (heap w1)"
    using I(1,3) by simp_all
  have ann: "shape (heap w1 ! annotation_data self) = [height self, width self, 3]"
    "length (elems (heap w1 ! annotation_data self)) = height self * width self * 3"
    using I(4) by (simp_all add: np_zeros_def)
  from c show ?thesis
  proof (elim disjE)
    assume s: "shape ?dat = [h, wd]"
    then have "nchannels self = 1" using I(9) by simp
    moreover have "length (elems ?dat) = height self * width self * 1" using n s hw by simp
    ultimately show ?thesis
      unfolding well_formed_def Let_def using valid ann s hw by simp
  next
    assume s: "shape ?dat = [h, wd, 1]"
    then have "nchannels self = 1" using I(9) by simp
    moreover have "length (elems ?dat) = height self * width self * 1" using n s hw by simp
    ultimately show ?thesis
      unfolding well_formed_def Let_def using valid ann s hw by simp
  next
    assume s: "shape ?dat = [h, wd, 3]"
    then have "nchannels self = 3" using I(9) by simp
    moreover have "length (elems ?dat) = height self * width self * 3" using n s hw by simp
    ultimately show ?thesis
      unfolding well_formed_def Let_def using valid ann s hw by simp
  qed
qed

lemma annotate_all_well_formed:
  assumes "well_formed self w"
  shows "well_formed self (annotate_all cv self ops w)"
proof -
  have k: "buffers_kept self w (annotate_all cv self ops w)" by (rule annotate_all_buffers_kept)
  from assms have v: "data self < length (heap w)" "annotation_data self < length (heap w)"
    unfolding well_formed_def by simp_all
  from k v have "length (heap (annotate_all cv self ops w)) = length (heap w)"
    "shape (heap (annotate_all cv self ops w) ! data self) = shape (heap w ! data self)"
    "shape (heap (annotate_all cv self ops w) ! annotation_data self) =
       shape (heap w ! annotation_data self)"
    "length (elems (heap (annotate_all cv self ops w) ! data self)) = length (elems (heap w ! data self))"
    "length (elems (heap (annotate_all cv self ops w) ! annotation_data self)) =
       length (elems (heap w ! annotation_data self))"
    unfolding buffers_kept_def by simp_all
  then show ?thesis using assms unfolding well_formed_def Let_def by simp
qed

text \<open>
  C8. When the constructor returns an Image (from a live array, or from a path or file that
  decodes), its overlay is a new array of shape height by width by 3 whose elements are
  all 0, and height and width are the first two dimensions of the base raster. After any
  sequence of annotation operations on the Image, raising or not, the overlay and the base
  raster have the shapes they had, so the overlay's first two dimensions still equal the
  base raster's.
\<close>

theorem overlay_shape_invariant:
  assumes "valid_source src w0" and "Image_init cv src args dsc w0 = Return self w1"
  shows "heap w1 ! annotation_data self =
           \<lparr>shape = [height self, width self, 3],
            elems = replicate (height self * width self * 3) 0\<rparr> \<and>
         take 2 (shape (heap w1 ! data self)) = [height self, width self] \<and>
         (\<forall>ops. shape (heap (annotate_all cv self ops w1) ! annotation_data self) =
                  [height self, width self, 3] \<and>
                length (elems (heap (annotate_all cv self ops w1) ! annotation_data self)) =
                  height self * width self * 3 \<and>
                shape (heap (annotate_all cv self ops w1) ! data self) = shape (heap w1 ! data self) \<and>
                take 2 (shape (heap (annotate_all cv self ops w1) ! annotation_data self)) =
                  take 2 (shape (heap (annotate_all cv self ops w1) ! data self)))"
proof -
  note I = Image_init_Return [OF assms]
  have z: "heap w1 ! annotation_data self =
      \<lparr>shape = [height self, width self, 3], elems = replicate (height self * width self * 3) 0\<rparr>"
    using I(4) by (simp add: np_zeros_def)
  have valid: "annotation_data self < length (heap w1)" "data self < length (heap w1)"
    using I(1,3) by simp_all
  have kept: "shape (heap (annotate_all cv self ops w1) ! annotation_data self) =
        [height self, width self, 3] \<and>
      length (elems (heap (annotate_all cv self ops w1) ! annotation_data self)) =
        height self * width self * 3 \<and>
      shape (heap (annotate_all cv self ops w1) ! data self) = shape (heap w1 ! data self) \<and>
      take 2 (shape (heap (annotate_all cv self ops w1) ! annotation_data self)) =
        take 2 (shape (heap (annotate_all cv self ops w1) ! data self))" for ops
  proof -
    have k: "buffers_kept self w1 (annotate_all cv self ops w1)"
      by (rule annotate_all_buffers_kept)
    have a: "shape (heap (annotate_all cv self ops w1) ! annotation_data self) =
        shape (heap w1 ! annotation_data self)"
      "length (elems (heap (annotate_all cv self ops w1) ! annotation_data self)) =
        length (elems (heap w1 ! annotation_data self))"
      "shape (heap (annotate_all cv self ops w1) ! data self) = shape (heap w1 ! data self)"
      using k valid unfolding buffers_kept_def by simp_all
    show ?thesis unfolding a using z I(5) by simp
  qed
  show ?thesis using z I(5) kept by blast
qed

lemma px_init: "Image_init toy_cv2 (FromArray 0) [] ''px'' px_world = Return px_image px_blank"
  by code_simp

lemma px_point:
  "annotate_all toy_cv2 px_image [AnnotatePoint (0, 0) (0, 255, 0)] px_blank = px_drawn"
  by code_simp

theorem overlay_shape_invariant_witness:
  "valid_source (FromArray 0) px_world \<and>
   Image_init toy_cv2 (FromArray 0) [] ''px'' px_world = Return px_image px_blank \<and>
   heap px_blank ! annotation_data px_image = \<lparr>shape = [1, 1, 3], elems = [0, 0, 0]\<rparr> \<and>
   take 2 (shape (heap px_blank ! data px_image)) = [1, 1] \<and>
   annotate_all toy_cv2 px_image [AnnotatePoint (0, 0) (0, 255, 0)] px_blank = px_drawn \<and>
   shape (heap px_drawn ! annotation_data px_image) = [1, 1, 3] \<and>
   shape (heap px_drawn ! data px_image) = shape (heap px_blank ! data px_image)"
proof -
  have v: "valid_source (FromArray 0) px_world" by code_simp
  have hw: "height px_image = 1" "width px_image = 1" by code_simp+
  have rep: "replicate (1 * 1 * 3) (0 :: byte) = [0, 0, 0]" by code_simp
  note t = overlay_shape_invariant [OF v px_init, unfolded hw rep]
  from t have "heap px_blank ! annotation_data px_image = \<lparr>shape = [1, 1, 3], elems = [0, 0, 0]\<rparr>"
    by (rule conjunct1)
  moreover from t have "take 2 (shape (heap px_blank ! data px_image)) = [1, 1]"
    by (elim conjE)
  moreover from t have
    "shape (heap (annotate_all toy_cv2 px_image [AnnotatePoint (0, 0) (0, 255, 0)] px_blank) !
        annotation_data px_image) = [1, 1, 3] \<and>
     shape (heap (annotate_all toy_cv2 px_image [AnnotatePoint (0, 0) (0, 255, 0)] px_blank) !
        data px_image) = shape (heap px_blank ! data px_image)"
    by blast
  ultimately show ?thesis using v px_init px_point by simp
qed

subsection \<open>Who holds the buffers\<close>

text \<open>
  C9 (as amended). At construction, and only then: when the constructor returns an Image,
  its overlay is an array that did not exist before the call and differs from the base
  raster, and every array that existed is left as it was. The base raster is new as well
  when the Image is built from a path or a file object. Built from an array, the Image
  wraps that very array: it is not copied. Nothing is said of later constructions: an
  Image built afterwards from an array may wrap any array that exists by then.
\<close>

theorem constructor_ownership:
  assumes "valid_source src w0" and "Image_init cv src args dsc w0 = Return self w1"
  shows "length (heap w0) \<le> annotation_data self \<and> annotation_data self < length (heap w1) \<and>
         annotation_data self \<noteq> data self \<and>
         (\<forall>b < length (heap w0). heap w1 ! b = heap w0 ! b) \<and>
         (case src of
            FromArray a \<Rightarrow> data self = a
          | FromPath p \<Rightarrow> length (heap w0) \<le> data self \<and> data self < length (heap w1)
          | FromFile buf \<Rightarrow> length (heap w0) \<le> data self \<and> data self < length (heap w1))"
proof -
  note I = Image_init_Return [OF assms]
  have "case src of
            FromArray a \<Rightarrow> data self = a
          | FromPath p \<Rightarrow> length (heap w0) \<le> data self \<and> data self < length (heap w1)
          | FromFile buf \<Rightarrow> length (heap w0) \<le> data self \<and> data self < length (heap w1)"
    using I(8) I(1) I(3) by (cases src) simp_all
  then show ?thesis using I(1,2,3,6) by simp
qed

lemma tile_init:
  "Image_init toy_cv2 (FromPath ''tile.png'') [] ''tile'' px_blank =
     Return \<lparr>desc = ''tile'', data = 2, height = 1, width = 2, nchannels = 1, annotation_data = 3\<rparr>
       (px_blank\<lparr>heap := heap px_blank @
          [\<lparr>shape = [1, 2], elems = [7, 9]\<rparr>, \<lparr>shape = [1, 2, 3], elems = [0, 0, 0, 0, 0, 0]\<rparr>]\<rparr>)"
  by code_simp

theorem constructor_ownership_witness:
  "valid_source (FromPath ''tile.png'') px_blank \<and>
   Image_init toy_cv2 (FromPath ''tile.png'') [] ''tile'' px_blank =
     Return \<lparr>desc = ''tile'', data = 2, height = 1, width = 2, nchannels = 1, annotation_data = 3\<rparr>
       (px_blank\<lparr>heap := heap px_blank @
          [\<lparr>shape = [1, 2], elems = [7, 9]\<rparr>, \<lparr>shape = [1, 2, 3], elems = [0, 0, 0, 0, 0, 0]\<rparr>]\<rparr>) \<and>
   length (heap px_blank) \<le> (3 :: nat) \<and> length (heap px_blank) \<le> (2 :: nat) \<and> (3 :: nat) \<noteq> 2"
proof -
  let ?self = "\<lparr>desc = ''tile'', data = 2, height = 1, width = 2, nchannels = 1, annotation_data = 3\<rparr>"
  have v: "valid_source (FromPath ''tile.png'') px_blank" by simp
  from constructor_ownership [OF v tile_init]
  have "length (heap px_blank) \<le> annotation_data ?self \<and> annotation_data ?self \<noteq> data ?self \<and>
      length (heap px_blank) \<le> data ?self"
    by simp
  then have "length (heap px_blank) \<le> (3 :: nat) \<and> length (heap px_blank) \<le> (2 :: nat) \<and> (3 :: nat) \<noteq> 2"
    by simp
  then show ?thesis using v tile_init by blast
qed

text \<open>
  The overlay of an Image is a public attribute, and an array like any other: a later Image
  built from it has the overlay of the first as its base raster.
\<close>

lemma overlay_wrapped:
  "annotation_data px_image = 1 \<and>
   Image_init toy_cv2 (FromArray 1) [] ''third'' px_blank =
     Return \<lparr>desc = ''third'', data = 1, height = 1, width = 1, nchannels = 3, annotation_data = 2\<rparr>
       (px_blank\<lparr>heap := heap px_blank @ [\<lparr>shape = [1, 1, 3], elems = [0, 0, 0]\<rparr>]\<rparr>)"
  by code_simp

text \<open>
  C9 as stated fails. Two Images built from the same array have the same base buffer, and
  when the caller then writes 9 into the array, both Images read 9 where they read 200.
\<close>

theorem constructor_ownership_counterexample:
  "Image_init toy_cv2 (FromArray 0) [] ''px'' px_world = Return px_image px_blank \<and>
   Image_init toy_cv2 (FromArray 0) [] ''second'' px_blank = Return px_second px_both \<and>
   data px_image = data px_second \<and>
   base_at px_image px_both 0 0 0 = 200 \<and>
   base_at px_image (setitem 0 0 9 px_both) 0 0 0 = 9 \<and>
   base_at px_second (setitem 0 0 9 px_both) 0 0 0 = 9"
  by code_simp

subsection \<open>Shapes that draw nothing\<close>

text \<open>
  C6. For a shape whose geometry kind is none of LineString, LinearRing, MultiLineString
  and Polygon, \<^verbatim>\<open>annotate_shape\<close> returns without raising and leaves the world as it was: no
  native call is issued and the overlay is unchanged.
\<close>

theorem annotate_shape_unsupported:
  assumes "geometry_kind g \<notin> {''LineString'', ''LinearRing'', ''MultiLineString'', ''Polygon''}"
  shows "annotate_shape cv self g col fill_color opts w = Return () w"
  using assms by (cases g) simp_all

theorem annotate_shape_unsupported_witness:
  "geometry_kind (MultiPoint [(1, 2), (3, 4)]) \<notin>
     {''LineString'', ''LinearRing'', ''MultiLineString'', ''Polygon''} \<and>
   annotate_shape toy_cv2 px_image (MultiPoint [(1, 2), (3, 4)]) (255, 0, 0) (Some (0, 0, 255))
     default_opts px_blank = Return () px_blank"
proof -
  have k: "geometry_kind (MultiPoint [(1, 2), (3, 4)]) \<notin>
     {''LineString'', ''LinearRing'', ''MultiLineString'', ''Polygon''}"
    by simp
  from annotate_shape_unsupported [OF k] k show ?thesis by blast
qed

text \<open>
  C7. For a LineString or a LinearRing whose coordinate sequence is empty, and for a
  MultiLineString all of whose lines are empty, \<^verbatim>\<open>annotate_shape\<close> returns without raising
  and leaves the world as it was: no segment is drawn.
\<close>

theorem annotate_shape_empty:
  "annotate_shape cv self (LineString []) col fill_color opts w = Return () w \<and>
   annotate_shape cv self (LinearRing []) col fill_color opts w = Return () w \<and>
   annotate_shape cv self (MultiLineString (replicate n [])) col fill_color opts w = Return () w"
proof -
  have e: "draw_segments cv self [] col opts w' = Return () w'" for w'
    by (simp add: draw_segments_def)
  have "for_each (replicate n []) (\<lambda>line_string. draw_segments cv self line_string col opts) w =
      Return () w"
    by (induction n) (simp_all add: e)
  then show ?thesis using e by simp
qed

subsection \<open>A point is a filled circle of radius 3\<close>

text \<open>
  C10. \<^verbatim>\<open>annotate_point(point, color)\<close> has the outcome of
  \<^verbatim>\<open>annotate_circle(point, 3, color, thickness=-1)\<close>, the same world included: one native
  circle call on the overlay, centred at the point cut to integers, of radius 3 and
  thickness -1 (filled), in the fixed colour. Where the native library accepts the call,
  the overlay holds that colour at the pixels the circle covers.
\<close>

theorem annotate_point_is_circle:
  "annotate_point cv self pt col w =
     annotate_circle cv self pt 3 col (default_opts\<lparr>thickness := - 1\<rparr>) w \<and>
   annotate_point cv self pt col w =
     cv2_draw cv (Cv2Circle (annotation_data self) (int_point pt) 3 (fix_color_tuple col)
       \<lparr>thickness = - 1, lineType = 8, shift_bits = 0\<rparr>) w \<and>
   (accepts cv (Cv2Circle (annotation_data self) (int_point pt) 3 (fix_color_tuple col)
       \<lparr>thickness = - 1, lineType = 8, shift_bits = 0\<rparr>) \<and>
    drawable (heap w ! annotation_data self) \<longrightarrow>
    heap (world_of (annotate_point cv self pt col w)) =
      (heap w)[annotation_data self :=
         paint (covers cv (Cv2Circle (annotation_data self) (int_point pt) 3 (fix_color_tuple col)
                  \<lparr>thickness = - 1, lineType = 8, shift_bits = 0\<rparr>))
           (fix_color_tuple col) (heap w ! annotation_data self)])"
  by (simp add: annotate_point_def annotate_circle_def int_point_def default_opts_def
      cv2_draw_def Let_def)

theorem annotate_point_is_circle_witness:
  "accepts toy_cv2 (Cv2Circle (annotation_data px_image) (int_point (0, 0)) 3
       (fix_color_tuple (0, 255, 0)) \<lparr>thickness = - 1, lineType = 8, shift_bits = 0\<rparr>) \<and>
   drawable (heap px_blank ! annotation_data px_image) \<and>
   annotate_point toy_cv2 px_image (0, 0) (0, 255, 0) px_blank =
     annotate_circle toy_cv2 px_image (0, 0) 3 (0, 255, 0) (default_opts\<lparr>thickness := - 1\<rparr>) px_blank \<and>
   heap (world_of (annotate_point toy_cv2 px_image (0, 0) (0, 255, 0) px_blank)) =
     (heap px_blank)[annotation_data px_image :=
        paint (covers toy_cv2 (Cv2Circle (annotation_data px_image) (int_point (0, 0)) 3
                 (fix_color_tuple (0, 255, 0)) \<lparr>thickness = - 1, lineType = 8, shift_bits = 0\<rparr>))
          (fix_color_tuple (0, 255, 0)) (heap px_blank ! annotation_data px_image)]"
proof -
  have a: "accepts toy_cv2 (Cv2Circle (annotation_data px_image) (int_point (0, 0)) 3
       (fix_color_tuple (0, 255, 0)) \<lparr>thickness = - 1, lineType = 8, shift_bits = 0\<rparr>)"
    by code_simp
  have d: "drawable (heap px_blank ! annotation_data px_image)" by code_simp
  note t = annotate_point_is_circle [of toy_cv2 px_image "(0, 0)" "(0, 255, 0)" px_blank]
  from t have 1: "annotate_point toy_cv2 px_image (0, 0) (0, 255, 0) px_blank =
     annotate_circle toy_cv2 px_image (0, 0) 3 (0, 255, 0) (default_opts\<lparr>thickness := - 1\<rparr>) px_blank"
    by (rule conjunct1)
  from t a d have 2: "heap (world_of (annotate_point toy_cv2 px_image (0, 0) (0, 255, 0) px_blank)) =
     (heap px_blank)[annotation_data px_image :=
        paint (covers toy_cv2 (Cv2Circle (annotation_data px_image) (int_point (0, 0)) 3
                 (fix_color_tuple (0, 255, 0)) \<lparr>thickness = - 1, lineType = 8, shift_bits = 0\<rparr>))
          (fix_color_tuple (0, 255, 0)) (heap px_blank ! annotation_data px_image)]"
    by blast
  show ?thesis by (intro conjI a d 1 2)
qed

subsection \<open>Polygons\<close>

lemma bind_result_assoc:
  "bind_result (bind_result m f) g = bind_result m (\<lambda>x w. bind_result (f x w) g)"
  by (cases m) simp_all

lemma bind_result_Return: "bind_result (Return x w) f = f x w"
  by simp

lemma for_each_append:
  "for_each (xs @ ys) body = (\<lambda>w. bind_result (for_each xs body w) (\<lambda>_. for_each ys body))"
proof (induction xs)
  case Nil
  show ?case by (rule ext) simp
next
  case (Cons x xs)
  show ?case by (rule ext) (simp add: Cons.IH bind_result_assoc)
qed

lemma for_each_map: "for_each (map f xs) body = for_each xs (\<lambda>x. body (f x))"
proof (induction xs)
  case Nil
  show ?case by (rule ext) simp
next
  case (Cons x xs)
  show ?case by (rule ext) (simp add: Cons.IH)
qed

lemma upt_nth_1: "Suc k < n \<Longrightarrow> [1..<n] ! k = Suc k"
  by (subst nth_upt) simp_all

lemma zip_tl_nth:
  "zip ps (tl ps) = map (\<lambda>i. (ps ! (i - 1), ps ! i)) [1..<length ps]"
proof (rule nth_equalityI)
  show "length (zip ps (tl ps)) = length (map (\<lambda>i. (ps ! (i - 1), ps ! i)) [1..<length ps])"
    by simp
next
  fix k
  assume "k < length (zip ps (tl ps))"
  then have k: "Suc k < length ps" by simp
  then have "zip ps (tl ps) ! k = (ps ! k, ps ! Suc k)" by (simp add: nth_tl)
  moreover have "k < length [1..<length ps]" using k by simp
  then have "map (\<lambda>i. (ps ! (i - 1), ps ! i)) [1..<length ps] ! k =
      (ps ! ([1..<length ps] ! k - 1), ps ! ([1..<length ps] ! k))"
    by (rule nth_map)
  then have "map (\<lambda>i. (ps ! (i - 1), ps ! i)) [1..<length ps] ! k = (ps ! k, ps ! Suc k)"
    unfolding upt_nth_1 [OF k] by simp
  ultimately show "zip ps (tl ps) ! k = map (\<lambda>i. (ps ! (i - 1), ps ! i)) [1..<length ps] ! k"
    by simp
qed

lemma int_point_lambda: "(\<lambda>(x, y). (py_int x, py_int y)) = int_point"
  by (simp add: fun_eq_iff int_point_def)

lemma draw_segments_calls:
  "draw_segments cv self cs col opts w = for_each (stroke_calls self cs col opts) (cv2_draw cv) w"
proof -
  let ?ps = "map int_point cs"
  have "stroke_calls self cs col opts =
      map (\<lambda>i. Cv2Line (annotation_data self) (?ps ! (i - 1)) (?ps ! i) (fix_color_tuple col) opts)
        [1..<length ?ps]"
    unfolding stroke_calls_def zip_tl_nth by (simp add: comp_def)
  then have "for_each (stroke_calls self cs col opts) (cv2_draw cv) w =
      for_each [1..<length ?ps]
        (\<lambda>i. cv2_draw cv (Cv2Line (annotation_data self) (?ps ! (i - 1)) (?ps ! i)
                (fix_color_tuple col) opts)) w"
    by (simp only: for_each_map)
  then show ?thesis
    unfolding draw_segments_def annotate_line_def Let_def int_point_lambda by simp
qed

lemma draw_segments_calls_fun:
  "(\<lambda>ring. draw_segments cv self ring col opts) =
     (\<lambda>ring. for_each (stroke_calls self ring col opts) (cv2_draw cv))"
  by (intro ext) (rule draw_segments_calls)

lemma rings_calls:
  "for_each ints (\<lambda>ring. draw_segments cv self ring col opts) =
     for_each (concat (map (\<lambda>ring. stroke_calls self ring col opts) ints)) (cv2_draw cv)"
proof (induction ints)
  case Nil
  show ?case by (rule ext) simp
next
  case (Cons r rs)
  show ?case
    by (rule ext)
       (simp add: Cons.IH [unfolded draw_segments_calls_fun] for_each_append draw_segments_calls)
qed

lemma polygon_as_calls:
  "annotate_shape cv self (Polygon ext ints) col fill_color opts w =
     for_each (polygon_calls self ext ints col fill_color opts) (cv2_draw cv) w"
proof -
  let ?strokes = "stroke_calls self ext col opts @
      concat (map (\<lambda>ring. stroke_calls self ring col opts) ints)"
  have s: "bind_result (draw_segments cv self ext col opts w1)
        (\<lambda>_. for_each ints (\<lambda>interior_ring. draw_segments cv self interior_ring col opts)) =
      for_each ?strokes (cv2_draw cv) w1" for w1
    by (simp add: for_each_append draw_segments_calls rings_calls)
  show ?thesis
  proof (cases fill_color)
    case None
    then show ?thesis by (simp add: polygon_calls_def s)
  next
    case (Some fc)
    let ?fill = "Cv2FillPoly (annotation_data self) (map (map int_point) (ext # ints)) (fix_color_tuple fc)"
    have "annotate_shape cv self (Polygon ext ints) col fill_color opts w =
        bind_result (cv2_draw cv ?fill w) (\<lambda>_. for_each ?strokes (cv2_draw cv))"
      using Some by (simp add: Let_def s int_point_lambda)
    also have "\<dots> = for_each (?fill # ?strokes) (cv2_draw cv) w" by simp
    finally show ?thesis using Some by (simp add: polygon_calls_def)
  qed
qed

lemma filter_single:
  assumes "k < length xs" "P (xs ! k)" "\<forall>j < length xs. j \<noteq> k \<longrightarrow> \<not> P (xs ! j)"
  shows "length (filter P xs) = 1"
proof -
  have xs: "xs = take k xs @ xs ! k # drop (Suc k) xs"
    using assms(1) by (rule id_take_nth_drop)
  have "\<not> P x" if "x \<in> set (take k xs)" for x
  proof -
    from that obtain j where "j < k" "x = xs ! j"
      using assms(1) by (auto simp: in_set_conv_nth)
    then show ?thesis using assms(1,3) by auto
  qed
  then have a: "filter P (take k xs) = []" by (simp add: filter_empty_conv)
  have "\<not> P x" if "x \<in> set (drop (Suc k) xs)" for x
  proof -
    from that obtain j where "j < length xs - Suc k" "x = xs ! (Suc k + j)"
      by (auto simp: in_set_conv_nth)
    then show ?thesis using assms(3) by auto
  qed
  then have b: "filter P (drop (Suc k) xs) = []" by (simp add: filter_empty_conv)
  have "filter P xs = filter P (take k xs) @ filter P (xs ! k # drop (Suc k) xs)"
    by (subst xs) (simp only: filter_append)
  then show ?thesis using a b assms(2) by simp
qed

lemma hole_not_filled:
  assumes k: "k < length ints"
    and hole: "inside cv (map int_point (ints ! k)) p"
    and ext: "inside cv (map int_point ext) p"
    and others: "\<forall>j < length ints. j \<noteq> k \<longrightarrow> \<not> inside cv (map int_point (ints ! j)) p"
    and edge: "\<forall>ring \<in> set (ext # ints). \<not> on_boundary cv (map int_point ring) p"
  shows "\<not> fill_region cv (map (map int_point) (ext # ints)) p"
proof -
  let ?holes = "map (map int_point) ints"
  have "length (filter (\<lambda>c. inside cv c p) ?holes) = 1"
    by (rule filter_single [where k = k]) (use k hole others in simp_all)
  then have "length (filter (\<lambda>c. inside cv c p) (map (map int_point) (ext # ints))) = 2"
    using ext by simp
  moreover have "\<not> list_ex (\<lambda>c. on_boundary cv c p) (map (map int_point) (ext # ints))"
    using edge by (auto simp: list_ex_iff)
  ultimately show ?thesis unfolding fill_region_def by simp
qed

lemma store_at_other: "i < k \<or> k + length vs \<le> i \<Longrightarrow> store_at k vs es ! i = es ! i"
proof (induction vs arbitrary: k es)
  case Nil
  show ?case by simp
next
  case (Cons v vs)
  from Cons.prems have "i < Suc k \<or> Suc k + length vs \<le> i" and ne: "i \<noteq> k" by auto
  from Cons.IH [OF this(1)] have "store_at (Suc k) vs (es[k := v]) ! i = es[k := v] ! i" .
  then show ?case using ne by simp
qed

lemma cell_index_inj:
  fixes P P' nc c c' :: nat
  assumes "P \<noteq> P'" "c < nc"
  shows "P * nc + c < P' * nc \<or> P' * nc + nc \<le> P * nc + c"
proof (cases "P < P'")
  case True
  then have "Suc P * nc \<le> P' * nc" by (intro mult_le_mono1) simp
  then show ?thesis using assms(2) by simp
next
  case False
  then have "Suc P' \<le> P" using assms(1) by simp
  then have "Suc P' * nc \<le> P * nc" by (rule mult_le_mono1)
  then show ?thesis by simp
qed

lemma row_major_inj:
  fixes x x' y y' w :: nat
  assumes "x < w" "x' < w" "y * w + x = y' * w + x'"
  shows "x = x' \<and> y = y'"
proof -
  have "(y * w + x) mod w = x" "(y' * w + x') mod w = x'" using assms(1,2) by simp_all
  then have x: "x = x'" using assms(3) by simp
  have "(y * w + x) div w = y" "(y' * w + x') div w = y'" using assms(1,2) by simp_all
  then have "y = y'" using assms(3) by simp
  with x show ?thesis by simp
qed

lemma put_pixel_other:
  assumes ne: "q \<noteq> (x, y)" and b: "0 \<le> x" "x < int (ncols a)" "0 \<le> y" and c: "c < nchan a"
  shows "elems (put_pixel col a q) ! ((nat y * ncols a + nat x) * nchan a + c) =
         elems a ! ((nat y * ncols a + nat x) * nchan a + c)"
proof (cases q)
  case (Pair x' y')
  show ?thesis
  proof (cases "0 \<le> x' \<and> x' < int (ncols a) \<and> 0 \<le> y' \<and> y' < int (nrows a)")
    case False
    then have "put_pixel col a q = a" unfolding put_pixel_def Pair prod.case by (rule if_not_P)
    then show ?thesis by simp
  next
    case True
    let ?P = "nat y * ncols a + nat x" and ?P' = "nat y' * ncols a + nat x'"
    have "?P \<noteq> ?P'"
    proof
      assume "?P = ?P'"
      moreover have "nat x < ncols a" "nat x' < ncols a" using b True by auto
      ultimately have "nat x = nat x' \<and> nat y = nat y'" by (intro row_major_inj)
      then have "x = x'" "y = y'" using b True by auto
      then show False using ne Pair by simp
    qed
    from cell_index_inj [OF this c]
    have "?P * nchan a + c < ?P' * nchan a \<or> ?P' * nchan a + nchan a \<le> ?P * nchan a + c" .
    then have "?P * nchan a + c < ?P' * nchan a \<or>
        ?P' * nchan a + length (take (nchan a) (scalar col)) \<le> ?P * nchan a + c"
      by auto
    from store_at_other [OF this]
    have "store_at (?P' * nchan a) (take (nchan a) (scalar col)) (elems a) ! (?P * nchan a + c) =
        elems a ! (?P * nchan a + c)" .
    moreover have "put_pixel col a q =
        a\<lparr>elems := store_at (?P' * nchan a) (take (nchan a) (scalar col)) (elems a)\<rparr>"
      unfolding put_pixel_def Pair prod.case using True by (rule if_P)
    ultimately show ?thesis by simp
  qed
qed

lemma put_pixel_dims: "ncols (put_pixel col a q) = ncols a" "nchan (put_pixel col a q) = nchan a"
  by (cases q; simp add: put_pixel_def ncols_def nchan_def)+

lemma paint_other:
  assumes "(x, y) \<notin> set ps" "0 \<le> x" "x < int (ncols a)" "0 \<le> y" "c < nchan a"
  shows "elems (paint ps col a) ! ((nat y * ncols a + nat x) * nchan a + c) =
         elems a ! ((nat y * ncols a + nat x) * nchan a + c)"
  using assms unfolding paint_def
proof (induction ps arbitrary: a)
  case Nil
  show ?case by simp
next
  case (Cons q ps)
  let ?a = "put_pixel col a q"
  have "elems (foldl (put_pixel col) ?a ps) ! ((nat y * ncols ?a + nat x) * nchan ?a + c) =
      elems ?a ! ((nat y * ncols ?a + nat x) * nchan ?a + c)"
    using Cons.prems by (intro Cons.IH) (simp_all add: put_pixel_dims)
  moreover have "elems ?a ! ((nat y * ncols a + nat x) * nchan a + c) =
      elems a ! ((nat y * ncols a + nat x) * nchan a + c)"
    using Cons.prems by (intro put_pixel_other) auto
  ultimately show ?case by (simp add: put_pixel_dims)
qed

lemma fill_keeps_pixel:
  assumes out: "\<not> fill_region cv contours (x, y)"
    and b: "0 \<le> x" "x < int (ncols (heap w ! a))" "0 \<le> y"
    and a: "a < length (heap w)" and c: "c < nchan (heap w ! a)"
  shows "element_at (heap (world_of (cv2_draw cv (Cv2FillPoly a contours col) w)) ! a) (x, y) c =
         element_at (heap w ! a) (x, y) c"
proof (cases "accepts cv (Cv2FillPoly a contours col) \<and> drawable (heap w ! a)")
  case False
  then show ?thesis by (auto simp: cv2_draw_def Let_def)
next
  case True
  let ?ps = "filter (fill_region cv contours) (raster_points (heap w ! a))"
  let ?arr = "paint ?ps col (heap w ! a)"
  have "heap (world_of (cv2_draw cv (Cv2FillPoly a contours col) w)) ! a = ?arr"
    using True a by (simp add: cv2_draw_def Let_def)
  moreover have "(x, y) \<notin> set ?ps" using out by simp
  from paint_other [OF this b c, of col]
  have "element_at ?arr (x, y) c = element_at (heap w ! a) (x, y) c"
    unfolding element_at_def using paint_shape [of ?ps col "heap w ! a"]
    by (simp add: ncols_def nchan_def)
  ultimately show ?thesis by simp
qed

text \<open>
  C5 (as amended). For a Polygon, \<^verbatim>\<open>annotate_shape\<close> is the run of these native calls in this
  order, stopping where one is refused: if a fill colour is given, one fill of the exterior
  and all interior rings together, in the fixed fill colour; then one line for each pair of
  consecutive points of the exterior, in the fixed colour; then the same for each interior
  ring in turn. With no fill colour there is no fill call. The fill does not receive the
  rings of the shape but the rings with every coordinate cut to an integer, and takes them
  by the even-odd rule. The pixels it leaves out are therefore those of the cut rings: a
  pixel that lies inside one cut hole ring and inside the cut exterior, inside no other cut
  hole ring and on no outline of a cut ring is not among the pixels the fill paints, and
  the overlay holds at that pixel after the fill call what it held before. A pixel strictly
  inside a hole of the shape that is on or outside the cut ring is not covered by this.
\<close>

theorem annotate_shape_polygon:
  "annotate_shape cv self (Polygon ext ints) col fill_color opts w =
     for_each (polygon_calls self ext ints col fill_color opts) (cv2_draw cv) w \<and>
   polygon_calls self ext ints col None opts =
     stroke_calls self ext col opts @ concat (map (\<lambda>ring. stroke_calls self ring col opts) ints) \<and>
   (\<forall>k p fc.
      k < length ints \<and>
      inside cv (map int_point (ints ! k)) p \<and> inside cv (map int_point ext) p \<and>
      (\<forall>j < length ints. j \<noteq> k \<longrightarrow> \<not> inside cv (map int_point (ints ! j)) p) \<and>
      (\<forall>ring \<in> set (ext # ints). \<not> on_boundary cv (map int_point ring) p) \<longrightarrow>
      polygon_calls self ext ints col (Some fc) opts ! 0 =
        Cv2FillPoly (annotation_data self) (map (map int_point) (ext # ints)) (fix_color_tuple fc) \<and>
      (\<forall>arr. p \<notin> set (pixels_of cv (polygon_calls self ext ints col (Some fc) opts ! 0) arr)) \<and>
      (0 \<le> fst p \<and> fst p < int (ncols (heap w ! annotation_data self)) \<and> 0 \<le> snd p \<and>
       annotation_data self < length (heap w) \<longrightarrow>
       (\<forall>c < nchan (heap w ! annotation_data self).
          element_at (heap (world_of (cv2_draw cv (polygon_calls self ext ints col (Some fc) opts ! 0) w)) !
                        annotation_data self) p c =
          element_at (heap w ! annotation_data self) p c)))"
proof -
  have "polygon_calls self ext ints col (Some fc) opts ! 0 =
        Cv2FillPoly (annotation_data self) (map (map int_point) (ext # ints)) (fix_color_tuple fc) \<and>
      (\<forall>arr. p \<notin> set (pixels_of cv (polygon_calls self ext ints col (Some fc) opts ! 0) arr)) \<and>
      (0 \<le> fst p \<and> fst p < int (ncols (heap w ! annotation_data self)) \<and> 0 \<le> snd p \<and>
       annotation_data self < length (heap w) \<longrightarrow>
       (\<forall>c < nchan (heap w ! annotation_data self).
          element_at (heap (world_of (cv2_draw cv (polygon_calls self ext ints col (Some fc) opts ! 0) w)) !
                        annotation_data self) p c =
          element_at (heap w ! annotation_data self) p c))"
    if "k < length ints" "inside cv (map int_point (ints ! k)) p" "inside cv (map int_point ext) p"
      "\<forall>j < length ints. j \<noteq> k \<longrightarrow> \<not> inside cv (map int_point (ints ! j)) p"
      "\<forall>ring \<in> set (ext # ints). \<not> on_boundary cv (map int_point ring) p"
    for k p fc
  proof -
    let ?fill = "Cv2FillPoly (annotation_data self) (map (map int_point) (ext # ints)) (fix_color_tuple fc)"
    have first: "polygon_calls self ext ints col (Some fc) opts ! 0 = ?fill"
      by (simp add: polygon_calls_def)
    have out: "\<not> fill_region cv (map (map int_point) (ext # ints)) p"
      by (rule hole_not_filled [OF that])
    then have 1: "\<forall>arr. p \<notin> set (pixels_of cv ?fill arr)" by simp
    have 2: "element_at (heap (world_of (cv2_draw cv ?fill w)) ! annotation_data self) p c =
        element_at (heap w ! annotation_data self) p c"
      if "0 \<le> fst p" "fst p < int (ncols (heap w ! annotation_data self))" "0 \<le> snd p"
        "annotation_data self < length (heap w)" "c < nchan (heap w ! annotation_data self)"
      for c
      using fill_keeps_pixel [of cv "map (map int_point) (ext # ints)" "fst p" "snd p" w
          "annotation_data self" c "fix_color_tuple fc"] out that
      by simp
    show ?thesis unfolding first using 1 2 by blast
  qed
  moreover have "polygon_calls self ext ints col None opts =
     stroke_calls self ext col opts @ concat (map (\<lambda>ring. stroke_calls self ring col opts) ints)"
    by (simp add: polygon_calls_def)
  ultimately show ?thesis using polygon_as_calls [of cv self ext ints col fill_color opts w]
    by blast
qed

lemma sq_facts:
  "inside toy_cv2 (map int_point sq_hole) (3, 3)"
  "inside toy_cv2 (map int_point sq_exterior) (3, 3)"
  "\<not> inside toy_cv2 (map int_point sq_hole2) (3, 3)"
  "\<not> on_boundary toy_cv2 (map int_point sq_exterior) (3, 3)"
  "\<not> on_boundary toy_cv2 (map int_point sq_hole) (3, 3)"
  "\<not> on_boundary toy_cv2 (map int_point sq_hole2) (3, 3)"
  by code_simp+

lemma sq_painted:
  "(1, 1) \<in> set (pixels_of toy_cv2
     (polygon_calls sq_image sq_exterior [sq_hole, sq_hole2] (255, 0, 0) (Some (0, 255, 0)) default_opts ! 0)
     (heap sq_world ! 1))"
  by code_simp

lemma sq_filled:
  "element_at (heap (world_of (cv2_draw toy_cv2
     (polygon_calls sq_image sq_exterior [sq_hole, sq_hole2] (255, 0, 0) (Some (0, 255, 0)) default_opts ! 0)
     sq_world)) ! 1) (1, 1) 1 = 255"
  by code_simp

lemma sq_dims:
  "ncols (heap sq_world ! 1) = 13" "nchan (heap sq_world ! 1) = 3"
  "annotation_data sq_image = 1" "length (heap sq_world) = 2"
  "element_at (heap sq_world ! 1) (3, 3) 1 = 0"
  by code_simp+

theorem annotate_shape_polygon_witness:
  "inside toy_cv2 (map int_point sq_hole) (3, 3) \<and>
   inside toy_cv2 (map int_point sq_exterior) (3, 3) \<and>
   \<not> inside toy_cv2 (map int_point sq_hole2) (3, 3) \<and>
   \<not> on_boundary toy_cv2 (map int_point sq_exterior) (3, 3) \<and>
   \<not> on_boundary toy_cv2 (map int_point sq_hole) (3, 3) \<and>
   \<not> on_boundary toy_cv2 (map int_point sq_hole2) (3, 3) \<and>
   (3, 3) \<notin> set (pixels_of toy_cv2
     (polygon_calls sq_image sq_exterior [sq_hole, sq_hole2] (255, 0, 0) (Some (0, 255, 0)) default_opts ! 0)
     (heap sq_world ! 1)) \<and>
   (1, 1) \<in> set (pixels_of toy_cv2
     (polygon_calls sq_image sq_exterior [sq_hole, sq_hole2] (255, 0, 0) (Some (0, 255, 0)) default_opts ! 0)
     (heap sq_world ! 1)) \<and>
   element_at (heap (world_of (cv2_draw toy_cv2
     (polygon_calls sq_image sq_exterior [sq_hole, sq_hole2] (255, 0, 0) (Some (0, 255, 0)) default_opts ! 0)
     sq_world)) ! 1) (3, 3) 1 = 0 \<and>
   element_at (heap (world_of (cv2_draw toy_cv2
     (polygon_calls sq_image sq_exterior [sq_hole, sq_hole2] (255, 0, 0) (Some (0, 255, 0)) default_opts ! 0)
     sq_world)) ! 1) (1, 1) 1 = 255"
proof -
  let ?ints = "[sq_hole, sq_hole2]"
  let ?fill = "polygon_calls sq_image sq_exterior ?ints (255, 0, 0) (Some (0, 255, 0)) default_opts ! 0"
  have k: "(0 :: nat) < length ?ints" by simp
  have hole: "inside toy_cv2 (map int_point (?ints ! 0)) (3, 3)" using sq_facts(1) by simp
  have others: "\<forall>j < length ?ints. j \<noteq> 0 \<longrightarrow> \<not> inside toy_cv2 (map int_point (?ints ! j)) (3, 3)"
    using sq_facts(3) by (auto simp: less_Suc_eq)
  have edge: "\<forall>ring \<in> set (sq_exterior # ?ints). \<not> on_boundary toy_cv2 (map int_point ring) (3, 3)"
    using sq_facts(4,5,6) by simp
  have pre: "0 < length ?ints \<and>
      inside toy_cv2 (map int_point (?ints ! 0)) (3, 3) \<and>
      inside toy_cv2 (map int_point sq_exterior) (3, 3) \<and>
      (\<forall>j < length ?ints. j \<noteq> 0 \<longrightarrow> \<not> inside toy_cv2 (map int_point (?ints ! j)) (3, 3)) \<and>
      (\<forall>ring \<in> set (sq_exterior # ?ints). \<not> on_boundary toy_cv2 (map int_point ring) (3, 3))"
    using k hole sq_facts(2) others edge by blast
  have t: "(\<forall>arr. (3, 3) \<notin> set (pixels_of toy_cv2 ?fill arr)) \<and>
      (0 \<le> fst (3 :: int, 3 :: int) \<and> fst (3 :: int, 3 :: int) < int (ncols (heap sq_world ! annotation_data sq_image)) \<and>
       0 \<le> snd (3 :: int, 3 :: int) \<and> annotation_data sq_image < length (heap sq_world) \<longrightarrow>
       (\<forall>c < nchan (heap sq_world ! annotation_data sq_image).
          element_at (heap (world_of (cv2_draw toy_cv2 ?fill sq_world)) ! annotation_data sq_image) (3, 3) c =
          element_at (heap sq_world ! annotation_data sq_image) (3, 3) c))"
    using annotate_shape_polygon [of toy_cv2 sq_image sq_exterior ?ints "(255, 0, 0)"
        "Some (0, 255, 0)" default_opts sq_world] pre
    by blast
  then have 1: "(3, 3) \<notin> set (pixels_of toy_cv2 ?fill (heap sq_world ! 1))" by blast
  from t have "\<forall>c < 3. element_at (heap (world_of (cv2_draw toy_cv2 ?fill sq_world)) ! 1) (3, 3) c =
      element_at (heap sq_world ! 1) (3, 3) c"
    unfolding sq_dims by simp
  then have 2: "element_at (heap (world_of (cv2_draw toy_cv2 ?fill sq_world)) ! 1) (3, 3) 1 = 0"
    using sq_dims(5) by simp
  show ?thesis by (intro conjI sq_facts 1 2 sq_painted sq_filled)
qed

text \<open>
  C5 as stated fails. The first hole of the square runs from 2 to 4.9 in both directions,
  so the pixel (4, 4) lies strictly inside it. Cut to integers the ring runs from 2 to 4,
  the pixel is on its outline, and the fill paints it: after the fill call the overlay
  holds there the fill colour, where it held nothing.
\<close>

theorem annotate_shape_polygon_counterexample:
  "sq_hole = [(2, 2), (4.9, 2), (4.9, 4.9), (2, 4.9), (2, 2)] \<and>
   (2 :: rat) < 4 \<and> (4 :: rat) < 4.9 \<and> 4 < f64_round 4.9 \<and>
   map int_point sq_hole = [(2, 2), (4, 2), (4, 4), (2, 4), (2, 2)] \<and>
   int_point (f64_round 4.9, f64_round 4.9) = (4, 4) \<and>
   inside toy_cv2 (map int_point sq_exterior) (4, 4) \<and>
   polygon_calls sq_image sq_exterior [sq_hole, sq_hole2] (255, 0, 0) (Some (0, 255, 0)) default_opts ! 0 =
     Cv2FillPoly 1 (map (map int_point) [sq_exterior, sq_hole, sq_hole2]) (1, 255, 1) \<and>
   (4, 4) \<in> set (pixels_of toy_cv2
     (polygon_calls sq_image sq_exterior [sq_hole, sq_hole2] (255, 0, 0) (Some (0, 255, 0)) default_opts ! 0)
     (heap sq_world ! 1)) \<and>
   element_at (heap sq_world ! 1) (4, 4) 1 = 0 \<and>
   element_at (heap (world_of (cv2_draw toy_cv2
     (polygon_calls sq_image sq_exterior [sq_hole, sq_hole2] (255, 0, 0) (Some (0, 255, 0)) default_opts ! 0)
     sq_world)) ! 1) (4, 4) 1 = 255"
  by code_simp

end
